theory Spec2Isabelle
  imports Main "HOL-Library.Multiset" "HOL-Library.AList" "HOL-Library.Char_ord"
    "HOL-Library.List_Lexorder"
begin

section \<open>The file provider of traefik: data model\<close>

text \<open>
  The development embeds \<^verbatim>\<open>provider/file/file.go\<close>. Payloads (\<^verbatim>\<open>*config.Router\<close>,
  \<^verbatim>\<open>*config.Middleware\<close>, \<^verbatim>\<open>*config.Service\<close>, \<^verbatim>\<open>*tls.Configuration\<close>) are pointers
  to values owned by the surrounding system; the provider only stores and compares the
  pointers, so a payload is its address.
\<close>

type_synonym ref = nat

text \<open>
  A Go map \<^verbatim>\<open>map[string]*T\<close> is \<open>None\<close> when it is nil and otherwise the list of its
  entries, one per key. A slice is \<open>None\<close> when it is nil.
\<close>

type_synonym gomap = "(string \<times> ref) list option"

record configuration =
  Routers :: gomap
  Middlewares :: gomap
  Services :: gomap
  TLS :: "ref list option"

record provider =
  Watch :: bool
  Filename :: string
  Directory :: string
  TraefikFile :: string

record message =
  ProviderName :: string
  Configuration :: "configuration option"

datatype error =
    External string
  | NoFilenameDefined
  | InvalidFilename string
  | ErrorReadingConfigurationFile string error
  | UnableToReadDirectory string error
  | UnableToLoadSubdirectory string error
  | ErrorCreatingFileWatcher error
  | ErrorAddingFileWatcher error

datatype field = RouterName | MiddlewareName | ServiceName

datatype logentry =
    WarnField field string string
  | WarnTLS ref
  | ErrorUnableToWatch string error
  | ErrorWatcherCallback error
  | ErrorWatcherEvent error

text \<open>
  What \<^verbatim>\<open>ioutil.ReadDir\<close> returns for a directory: an error, or the list of its entries.
  An entry that is a directory carries the listing of that directory, so that the
  recursion of the aggregator follows the directory tree.
\<close>

datatype listing = ReadDirError error | FileList "dirent list"
  and dirent = FileInfo string | DirInfo string listing

text \<open>
  The environment of the provider: the filesystem, the path functions of the standard
  library, the template and decoding engines of \<^verbatim>\<open>provider.BaseProvider\<close>, and
  \<^verbatim>\<open>fsnotify\<close>.
\<close>

record world =
  ioReadFile :: "string \<Rightarrow> error + string"
  ioReadDir :: "string \<Rightarrow> listing"
  osStat :: "string \<Rightarrow> error option"
  pathJoin :: "string \<Rightarrow> string \<Rightarrow> string"
  pathDir :: "string \<Rightarrow> string"
  CreateConfiguration :: "string \<Rightarrow> configuration option \<times> error option"
  DecodeConfiguration :: "string \<Rightarrow> configuration option \<times> error option"
  NewWatcher :: "error option"
  watcherAdd :: "string \<Rightarrow> error option"

text \<open>
  Go leaves the order of a \<^verbatim>\<open>range\<close> over a map unspecified, and it may differ from one
  loop to the next. The order comes from a schedule, asked with the number of range
  loops over maps executed so far.
\<close>

record sched =
  mapOrder :: "nat \<Rightarrow> (string \<times> ref) list \<Rightarrow> (string \<times> ref) list"
  setOrder :: "nat \<Rightarrow> ref list \<Rightarrow> ref list"

definition fair :: "sched \<Rightarrow> bool" where
  "fair \<sigma> \<longleftrightarrow> (\<forall>t es. mset (mapOrder \<sigma> t es) = mset es) \<and> (\<forall>t s. mset (setOrder \<sigma> t s) = mset s)"

record rt =
  logs :: "logentry list"
  ticks :: nat

datatype 'a outcome = Panic | Return 'a

section \<open>Library functions\<close>

definition HasSuffix :: "string \<Rightarrow> string \<Rightarrow> bool" where
  "HasSuffix s suffix \<longleftrightarrow>
     length s \<ge> length suffix \<and> drop (length s - length suffix) s = suffix"

text \<open>\<^verbatim>\<open>filepath.Split\<close> with the separator \<^verbatim>\<open>/\<close>: the cut is after the last separator.\<close>

definition Split :: "string \<Rightarrow> string \<times> string" where
  "Split path =
     (let i = length (dropWhile (\<lambda>c. c \<noteq> CHR ''/'') (rev path))
      in (take i path, drop i path))"

definition entries :: "gomap \<Rightarrow> (string \<times> ref) list" where
  "entries m = (case m of None \<Rightarrow> [] | Some es \<Rightarrow> es)"

definition exists :: "gomap \<Rightarrow> string \<Rightarrow> bool" where
  "exists m name = (map_of (entries m) name \<noteq> None)"

definition assign :: "gomap \<Rightarrow> string \<Rightarrow> ref \<Rightarrow> gomap outcome" where
  "assign m name conf =
     (case m of None \<Rightarrow> Panic | Some es \<Rightarrow> Return (Some (AList.update name conf es)))"

definition slice :: "ref list option \<Rightarrow> ref list" where
  "slice s = (case s of None \<Rightarrow> [] | Some xs \<Rightarrow> xs)"

definition appendSlice :: "ref list option \<Rightarrow> ref \<Rightarrow> ref list option" where
  "appendSlice s x = Some (slice s @ [x])"

section \<open>Reader and Snapshot Builder\<close>

definition readFile :: "world \<Rightarrow> string \<Rightarrow> error + string" where
  "readFile w filename =
     (if length filename > 0 then
        (case ioReadFile w filename of Inl err \<Rightarrow> Inl err | Inr buf \<Rightarrow> Inr buf)
      else Inl (InvalidFilename filename))"

definition emptyConfiguration :: configuration where
  "emptyConfiguration = \<lparr>Routers = Some [], Middlewares = Some [], Services = Some [], TLS = None\<rparr>"

definition loadFileConfig :: "world \<Rightarrow> string \<Rightarrow> bool \<Rightarrow> error + configuration" where
  "loadFileConfig w filename parseTemplate =
     (case readFile w filename of
        Inl err \<Rightarrow> Inl (ErrorReadingConfigurationFile filename err)
      | Inr fileContent \<Rightarrow>
          (case (if parseTemplate then CreateConfiguration w fileContent
                 else DecodeConfiguration w fileContent) of
             (_, Some err) \<Rightarrow> Inl err
           | (None, None) \<Rightarrow> Inr emptyConfiguration
           | (Some c, None) \<Rightarrow>
               if Routers c = None \<and> Middlewares c = None \<and> Services c = None \<and> TLS c = None
               then Inr emptyConfiguration
               else Inr c))"

section \<open>Directory Aggregator\<close>

definition skipping :: "field \<Rightarrow> string" where
  "skipping f = (case f of
       RouterName \<Rightarrow> ''Router already configured, skipping''
     | MiddlewareName \<Rightarrow> ''Middleware already configured, skipping''
     | ServiceName \<Rightarrow> ''Service already configured, skipping'')"

text \<open>
  One of the three loops of lines 237 to 259, over the entries of the file's map in the
  order of this range: a name of the accumulator's map is skipped with a warning, a new
  name is assigned.
\<close>

fun mergeNamed :: "field \<Rightarrow> (string \<times> ref) list \<Rightarrow> logentry list \<Rightarrow> gomap
    \<Rightarrow> (logentry list \<times> gomap) outcome" where
  "mergeNamed f [] lg m = Return (lg, m)"
| "mergeNamed f ((name, conf) # rest) lg m =
     (if exists m name then mergeNamed f rest (lg @ [WarnField f name (skipping f)]) m
      else (case assign m name conf of
              Panic \<Rightarrow> Panic
            | Return m' \<Rightarrow> mergeNamed f rest lg m'))"

text \<open>The loop of lines 261 to 267; \<open>configTLSMaps\<close> is the list of its keys.\<close>

fun mergeTLS :: "ref list \<Rightarrow> logentry list \<Rightarrow> ref list \<Rightarrow> logentry list \<times> ref list" where
  "mergeTLS [] lg configTLSMaps = (lg, configTLSMaps)"
| "mergeTLS (conf # rest) lg configTLSMaps =
     (if conf \<in> set configTLSMaps then mergeTLS rest (lg @ [WarnTLS conf]) configTLSMaps
      else mergeTLS rest lg (configTLSMaps @ [conf]))"

text \<open>
  Lines 237 to 267 for one file's snapshot \<open>c\<close>. A nil \<open>configuration\<close> is dereferenced
  by the first entry of a map of \<open>c\<close>.
\<close>

definition mergeSnapshot :: "sched \<Rightarrow> configuration \<Rightarrow> rt \<Rightarrow> configuration option \<Rightarrow> ref list
    \<Rightarrow> (rt \<times> configuration option \<times> ref list) outcome" where
  "mergeSnapshot \<sigma> c r configuration configTLSMaps =
     (let t = ticks r;
          rs = mapOrder \<sigma> t (entries (Routers c));
          ms = mapOrder \<sigma> (t + 1) (entries (Middlewares c));
          ss = mapOrder \<sigma> (t + 2) (entries (Services c))
      in case configuration of
           None \<Rightarrow>
             if rs = [] \<and> ms = [] \<and> ss = [] then
               (case mergeTLS (slice (TLS c)) (logs r) configTLSMaps of
                  (lg, tm) \<Rightarrow> Return (\<lparr>logs = lg, ticks = t + 3\<rparr>, None, tm))
             else Panic
         | Some acc \<Rightarrow>
             (case mergeNamed RouterName rs (logs r) (Routers acc) of
                Panic \<Rightarrow> Panic
              | Return (lg1, routers) \<Rightarrow>
             (case mergeNamed MiddlewareName ms lg1 (Middlewares acc) of
                Panic \<Rightarrow> Panic
              | Return (lg2, middlewares) \<Rightarrow>
             (case mergeNamed ServiceName ss lg2 (Services acc) of
                Panic \<Rightarrow> Panic
              | Return (lg3, services) \<Rightarrow>
             (case mergeTLS (slice (TLS c)) lg3 configTLSMaps of
                (lg, tm) \<Rightarrow>
                  Return (\<lparr>logs = lg, ticks = t + 3\<rparr>,
                          Some (acc\<lparr>Routers := routers, Middlewares := middlewares,
                                    Services := services\<rparr>),
                          tm))))))"

text \<open>Lines 270 to 272: the keys of \<open>configTLSMaps\<close>, in the order of this range.\<close>

fun appendAll :: "ref list option \<Rightarrow> ref list \<Rightarrow> ref list option" where
  "appendAll s [] = s"
| "appendAll s (conf # rest) = appendAll (appendSlice s conf) rest"

definition collectTLS :: "sched \<Rightarrow> rt \<Rightarrow> configuration option \<Rightarrow> ref list
    \<Rightarrow> (rt \<times> configuration option) outcome" where
  "collectTLS \<sigma> r configuration configTLSMaps =
     (let order = setOrder \<sigma> (ticks r) configTLSMaps;
          r' = r\<lparr>ticks := ticks r + 1\<rparr>
      in case configuration of
           None \<Rightarrow> if order = [] then Return (r', None) else Panic
         | Some acc \<Rightarrow> Return (r', Some (acc\<lparr>TLS := appendAll (TLS acc) order\<rparr>)))"

datatype loop = Fallthrough rt "configuration option" "ref list"
  | Returned rt "configuration option" error

fun loadFileConfigFromDirectory :: "world \<Rightarrow> sched \<Rightarrow> string \<Rightarrow> listing \<Rightarrow> rt
      \<Rightarrow> configuration option \<Rightarrow> (rt \<times> configuration option \<times> error option) outcome"
  and forItems :: "world \<Rightarrow> sched \<Rightarrow> string \<Rightarrow> dirent list \<Rightarrow> rt
      \<Rightarrow> configuration option \<Rightarrow> ref list \<Rightarrow> loop outcome" where
  "loadFileConfigFromDirectory w \<sigma> directory (ReadDirError err) r configuration =
     Return (r, configuration, Some (UnableToReadDirectory directory err))"
| "loadFileConfigFromDirectory w \<sigma> directory (FileList fileList) r configuration =
     (case forItems w \<sigma> directory fileList r
             (case configuration of None \<Rightarrow> Some emptyConfiguration | Some c \<Rightarrow> Some c) [] of
        Panic \<Rightarrow> Panic
      | Return (Returned r' configuration' err) \<Rightarrow> Return (r', configuration', Some err)
      | Return (Fallthrough r' configuration' configTLSMaps) \<Rightarrow>
          (case collectTLS \<sigma> r' configuration' configTLSMaps of
             Panic \<Rightarrow> Panic
           | Return (r'', configuration'') \<Rightarrow> Return (r'', configuration'', None)))"
| "forItems w \<sigma> directory [] r configuration configTLSMaps =
     Return (Fallthrough r configuration configTLSMaps)"
| "forItems w \<sigma> directory (DirInfo name sub # items) r configuration configTLSMaps =
     (case loadFileConfigFromDirectory w \<sigma> (pathJoin w directory name) sub r configuration of
        Panic \<Rightarrow> Panic
      | Return (r', configuration', Some err) \<Rightarrow>
          Return (Returned r' configuration' (UnableToLoadSubdirectory name err))
      | Return (r', configuration', None) \<Rightarrow>
          forItems w \<sigma> directory items r' configuration' configTLSMaps)"
| "forItems w \<sigma> directory (FileInfo name # items) r configuration configTLSMaps =
     (if \<not> HasSuffix name ''.toml'' \<and> \<not> HasSuffix name ''.tmpl'' then
        forItems w \<sigma> directory items r configuration configTLSMaps
      else
        (case loadFileConfig w (pathJoin w directory name) True of
           Inl err \<Rightarrow> Return (Returned r configuration err)
         | Inr c \<Rightarrow>
             (case mergeSnapshot \<sigma> c r configuration configTLSMaps of
                Panic \<Rightarrow> Panic
              | Return (r', configuration', configTLSMaps') \<Rightarrow>
                  forItems w \<sigma> directory items r' configuration' configTLSMaps')))"

section \<open>Building, delivering, watching\<close>

definition returned :: "error + configuration \<Rightarrow> configuration option \<times> error option" where
  "returned x = (case x of Inl err \<Rightarrow> (None, Some err) | Inr c \<Rightarrow> (Some c, None))"

definition BuildConfiguration :: "world \<Rightarrow> sched \<Rightarrow> provider \<Rightarrow> rt
    \<Rightarrow> (rt \<times> configuration option \<times> error option) outcome" where
  "BuildConfiguration w \<sigma> p r =
     (if length (Directory p) > 0 then
        loadFileConfigFromDirectory w \<sigma> (Directory p) (ioReadDir w (Directory p)) r None
      else if length (Filename p) > 0 then
        Return (r, returned (loadFileConfig w (Filename p) True))
      else if length (TraefikFile p) > 0 then
        Return (r, returned (loadFileConfig w (TraefikFile p) False))
      else Return (r, None, Some NoFilenameDefined))"

definition sendConfigToChannel :: "message list \<Rightarrow> configuration option \<Rightarrow> message list" where
  "sendConfigToChannel configurationChan configuration =
     configurationChan @ [\<lparr>ProviderName = ''file'', Configuration = configuration\<rparr>]"

fun watcherCallback :: "world \<Rightarrow> sched \<Rightarrow> provider \<Rightarrow> string \<Rightarrow> rt \<times> message list
    \<Rightarrow> (rt \<times> message list) outcome" where
  "watcherCallback w \<sigma> p event (r, configurationChan) =
     (let watchItem = (if length (Directory p) > 0 then Directory p
                       else if length (Filename p) > 0 then Filename p
                       else TraefikFile p)
      in (case osStat w watchItem of
            Some err \<Rightarrow>
              Return (r\<lparr>logs := logs r @ [ErrorUnableToWatch watchItem err]\<rparr>, configurationChan)
          | None \<Rightarrow>
              (case BuildConfiguration w \<sigma> p r of
                 Panic \<Rightarrow> Panic
               | Return (r', configuration, Some err) \<Rightarrow>
                   Return (r'\<lparr>logs := logs r' @ [ErrorWatcherCallback err]\<rparr>, configurationChan)
               | Return (r', configuration, None) \<Rightarrow>
                   Return (r', sendConfigToChannel configurationChan configuration))))"

text \<open>
  The case of lines 106 to 122 of the task's \<^verbatim>\<open>select\<close>, for the event named \<open>evt\<close>.
\<close>

definition onEvent :: "provider \<Rightarrow> (string \<Rightarrow> 's \<Rightarrow> 's outcome) \<Rightarrow> string \<Rightarrow> 's \<Rightarrow> 's outcome" where
  "onEvent p callback evt st =
     (if Directory p = [] then
        (let filename = (if length (Filename p) > 0 then Filename p else TraefikFile p);
             evtFileName = snd (Split evt);
             confFileName = snd (Split filename)
         in if evtFileName = confFileName then callback evt st else Return st)
      else callback evt st)"

text \<open>
  The task of lines 100 to 127, run on the signals its \<^verbatim>\<open>select\<close> receives, each with
  the environment at that moment. The result says whether the task has returned (and
  closed the watcher) or still waits.
\<close>

datatype signal = Stop | Event string | WatcherError error

fun watchTask :: "sched \<Rightarrow> provider \<Rightarrow> (world \<times> signal) list \<Rightarrow> rt \<times> message list
    \<Rightarrow> (bool \<times> rt \<times> message list) outcome" where
  "watchTask \<sigma> p [] st = Return (False, st)"
| "watchTask \<sigma> p ((w, Stop) # rest) st = Return (True, st)"
| "watchTask \<sigma> p ((w, Event evt) # rest) st =
     (case onEvent p (watcherCallback w \<sigma> p) evt st of
        Panic \<Rightarrow> Panic
      | Return st' \<Rightarrow> watchTask \<sigma> p rest st')"
| "watchTask \<sigma> p ((w, WatcherError err) # rest) st =
     watchTask \<sigma> p rest ((fst st)\<lparr>logs := logs (fst st) @ [ErrorWatcherEvent err]\<rparr>, snd st)"

text \<open>
  \<^verbatim>\<open>addWatcher\<close> up to the start of the task: the pool is the list of the directories its
  watcher tasks are subscribed to.
\<close>

definition addWatcher :: "world \<Rightarrow> string list \<Rightarrow> string \<Rightarrow> error + string list" where
  "addWatcher w pool directory =
     (case NewWatcher w of
        Some err \<Rightarrow> Inl (ErrorCreatingFileWatcher err)
      | None \<Rightarrow>
          (case watcherAdd w directory of
             Some err \<Rightarrow> Inl (ErrorAddingFileWatcher err)
           | None \<Rightarrow> Inr (pool @ [directory])))"

definition Provide :: "world \<Rightarrow> sched \<Rightarrow> provider \<Rightarrow> rt \<Rightarrow> message list \<Rightarrow> string list
    \<Rightarrow> (error option \<times> rt \<times> message list \<times> string list) outcome" where
  "Provide w \<sigma> p r configurationChan pool =
     (case BuildConfiguration w \<sigma> p r of
        Panic \<Rightarrow> Panic
      | Return (r', configuration, Some err) \<Rightarrow> Return (Some err, r', configurationChan, pool)
      | Return (r', configuration, None) \<Rightarrow>
          if Watch p then
            (let watchItem = (if length (Directory p) > 0 then Directory p
                              else if length (Filename p) > 0 then pathDir w (Filename p)
                              else pathDir w (TraefikFile p))
             in (case addWatcher w pool watchItem of
                   Inl err \<Rightarrow> Return (Some err, r', configurationChan, pool)
                 | Inr pool' \<Rightarrow>
                     Return (None, r', sendConfigToChannel configurationChan configuration, pool')))
          else Return (None, r', sendConfigToChannel configurationChan configuration, pool))"

section \<open>Notions used by the properties\<close>

text \<open>A Go map has one entry per key.\<close>

definition wellformed :: "configuration \<Rightarrow> bool" where
  "wellformed c \<longleftrightarrow> distinct (map fst (entries (Routers c)))
     \<and> distinct (map fst (entries (Middlewares c)))
     \<and> distinct (map fst (entries (Services c)))"

text \<open>The engines of the environment return such maps.\<close>

definition decodes :: "world \<Rightarrow> bool" where
  "decodes w \<longleftrightarrow>
     (\<forall>s. case fst (CreateConfiguration w s) of None \<Rightarrow> True | Some c \<Rightarrow> wellformed c)
   \<and> (\<forall>s. case fst (DecodeConfiguration w s) of None \<Rightarrow> True | Some c \<Rightarrow> wellformed c)"

text \<open>A snapshot whose three mappings are not nil.\<close>

definition good :: "configuration option \<Rightarrow> bool" where
  "good configuration =
     (case configuration of None \<Rightarrow> False
      | Some c \<Rightarrow> Routers c \<noteq> None \<and> Middlewares c \<noteq> None \<and> Services c \<noteq> None)"

fun isWarn :: "field \<Rightarrow> string \<Rightarrow> logentry \<Rightarrow> bool" where
  "isWarn f name (WarnField f' name' msg) = (f' = f \<and> name' = name)"
| "isWarn f name _ = False"

definition warnings :: "field \<Rightarrow> string \<Rightarrow> logentry list \<Rightarrow> nat" where
  "warnings f name lg = length (filter (isWarn f name) lg)"

fun mapping :: "field \<Rightarrow> configuration \<Rightarrow> gomap" where
  "mapping RouterName c = Routers c"
| "mapping MiddlewareName c = Middlewares c"
| "mapping ServiceName c = Services c"

text \<open>The value a map holds for a name, if any.\<close>

definition lookup :: "gomap \<Rightarrow> string \<Rightarrow> ref option" where
  "lookup m name = map_of (entries m) name"

section \<open>Example environments\<close>

definition testWorld :: "(string \<times> string) list \<Rightarrow> (string \<times> listing) list
    \<Rightarrow> (string \<times> configuration) list \<Rightarrow> world" where
  "testWorld files dirs decoded =
     \<lparr>ioReadFile = (\<lambda>f. case map_of files f of
                          None \<Rightarrow> Inl (External ''no such file'') | Some s \<Rightarrow> Inr s),
      ioReadDir = (\<lambda>d. case map_of dirs d of
                         None \<Rightarrow> ReadDirError (External ''no such directory'') | Some l \<Rightarrow> l),
      osStat = (\<lambda>f. if map_of files f = None \<and> map_of dirs f = None
                     then Some (External ''no such file or directory'') else None),
      pathJoin = (\<lambda>d n. d @ ''/'' @ n),
      pathDir = (\<lambda>f. fst (Split f)),
      CreateConfiguration = (\<lambda>s. case map_of decoded s of
                                  None \<Rightarrow> (None, Some (External ''cannot decode''))
                                | Some c \<Rightarrow> (Some c, None)),
      DecodeConfiguration = (\<lambda>s. case map_of decoded s of
                                  None \<Rightarrow> (None, Some (External ''cannot decode''))
                                | Some c \<Rightarrow> (Some c, None)),
      NewWatcher = None,
      watcherAdd = (\<lambda>d. None)\<rparr>"

definition inOrder :: sched where
  "inOrder = \<lparr>mapOrder = (\<lambda>t es. es), setOrder = (\<lambda>t s. s)\<rparr>"

definition reversed :: sched where
  "reversed = \<lparr>mapOrder = (\<lambda>t es. rev es), setOrder = (\<lambda>t s. rev s)\<rparr>"

definition start :: rt where
  "start = \<lparr>logs = [], ticks = 0\<rparr>"

definition noTarget :: provider where
  "noTarget = \<lparr>Watch = True, Filename = [], Directory = [], TraefikFile = []\<rparr>"

definition emptyWorld :: world where
  "emptyWorld = testWorld [] [] []"

definition fileTarget :: provider where
  "fileTarget = \<lparr>Watch = True, Filename = ''/a/b/conf.ext'', Directory = [], TraefikFile = []\<rparr>"

definition fallbackTarget :: provider where
  "fallbackTarget = \<lparr>Watch = True, Filename = [], Directory = [], TraefikFile = ''/a/b/conf.ext''\<rparr>"

definition dirTarget :: provider where
  "dirTarget = \<lparr>Watch = True, Filename = ''/a/b/conf.ext'', Directory = ''/a/b'', TraefikFile = ''/c''\<rparr>"

text \<open>A callback that counts its calls.\<close>

definition counting :: "string \<Rightarrow> nat \<Rightarrow> nat outcome" where
  "counting evt n = Return (Suc n)"

text \<open>
  An environment whose two engines differ: the template engine yields router \<open>t\<close>,
  the direct decoding router \<open>d\<close>.
\<close>

definition rendered :: configuration where
  "rendered = \<lparr>Routers = Some [(''t'', 1)], Middlewares = Some [], Services = Some [], TLS = None\<rparr>"

definition decoded :: configuration where
  "decoded = \<lparr>Routers = Some [(''d'', 2)], Middlewares = Some [], Services = Some [], TLS = None\<rparr>"

definition twoEngines :: world where
  "twoEngines = (testWorld [(''/a/b/conf.ext'', ''x'')] [(''/a/b'', FileList [])] [])
     \<lparr>CreateConfiguration := (\<lambda>s. (Some rendered, None)),
      DecodeConfiguration := (\<lambda>s. (Some decoded, None))\<rparr>"

text \<open>The watched file is there and is read, and the template engine rejects it.\<close>

definition brokenWorld :: world where
  "brokenWorld = testWorld [(''/a/b/conf.ext'', ''x'')] [] []"

text \<open>A file that defines one router and nothing else.\<close>

definition routersOnly :: configuration where
  "routersOnly = \<lparr>Routers = Some [(''r1'', 1)], Middlewares = None, Services = None, TLS = None\<rparr>"

definition routersOnlyWorld :: world where
  "routersOnlyWorld = testWorld [(''/a/b/conf.ext'', ''x'')] [] [(''x'', routersOnly)]"

text \<open>A file of which the engine makes a snapshot with nothing in it.\<close>

definition emptyDecode :: world where
  "emptyDecode = testWorld [(''/a/b/conf.ext'', ''x'')] []
     [(''x'', \<lparr>Routers = None, Middlewares = None, Services = None, TLS = None\<rparr>)]"

text \<open>
  The scenario of two files: the accumulator holds router \<open>r1\<close> of the first file; the
  second file defines \<open>r1\<close> with another payload, and \<open>r2\<close>.
\<close>

definition base :: configuration where
  "base = \<lparr>Routers = Some [(''r1'', 1)], Middlewares = Some [], Services = Some [], TLS = None\<rparr>"

definition override :: configuration where
  "override = \<lparr>Routers = Some [(''r1'', 2), (''r2'', 3)], Middlewares = None, Services = None, TLS = None\<rparr>"

text \<open>
  \<^verbatim>\<open>ioutil.ReadDir\<close> returns the entries of a directory sorted by filename, and a directory
  has no two entries of one name. Go compares strings byte by byte, a proper prefix
  first.
\<close>

fun Name :: "dirent \<Rightarrow> string" where
  "Name (FileInfo name) = name"
| "Name (DirInfo name sub) = name"

definition sortedByName :: "dirent list \<Rightarrow> bool" where
  "sortedByName fileList \<longleftrightarrow> sorted_wrt (<) (map Name fileList)"

text \<open>
  What the file \<open>n\<close> of a directory defines for a name, when the aggregator takes the
  file and its snapshot is built.
\<close>

definition payload :: "world \<Rightarrow> string \<Rightarrow> field \<Rightarrow> string \<Rightarrow> string \<Rightarrow> ref option" where
  "payload w directory f name n =
     (if \<not> HasSuffix n ''.toml'' \<and> \<not> HasSuffix n ''.tmpl'' then None
      else (case loadFileConfig w (pathJoin w directory n) True of
              Inl err \<Rightarrow> None
            | Inr c \<Rightarrow> lookup (mapping f c) name))"

text \<open>
  The first definition of a name on the way through a directory tree that takes the
  entries of every directory in the order of its listing, and a subdirectory wholly
  at the place of its entry.
\<close>

fun firstListing :: "world \<Rightarrow> field \<Rightarrow> string \<Rightarrow> string \<Rightarrow> listing \<Rightarrow> ref option"
  and firstItems :: "world \<Rightarrow> field \<Rightarrow> string \<Rightarrow> string \<Rightarrow> dirent list \<Rightarrow> ref option" where
  "firstListing w f name directory (ReadDirError err) = None"
| "firstListing w f name directory (FileList fileList) = firstItems w f name directory fileList"
| "firstItems w f name directory [] = None"
| "firstItems w f name directory (DirInfo n sub # items) =
     (case firstListing w f name (pathJoin w directory n) sub of
        Some v \<Rightarrow> Some v
      | None \<Rightarrow> firstItems w f name directory items)"
| "firstItems w f name directory (FileInfo n # items) =
     (case payload w directory f name n of
        Some v \<Rightarrow> Some v
      | None \<Rightarrow> firstItems w f name directory items)"

text \<open>What a snapshot, if there is one, holds for a name.\<close>

definition held :: "field \<Rightarrow> string \<Rightarrow> configuration option \<Rightarrow> ref option" where
  "held f name a = (case a of None \<Rightarrow> None | Some c \<Rightarrow> lookup (mapping f c) name)"

text \<open>
  A directory as \<^verbatim>\<open>ioutil.ReadDir\<close> lists it: the subdirectory \<open>a\<close> comes before the
  file \<open>a.toml\<close>. The file \<open>z.toml\<close> of the subdirectory and the file \<open>a.toml\<close> both
  define router \<open>r1\<close>.
\<close>

definition shadowed :: world where
  "shadowed = testWorld [(''/d/a/z.toml'', ''z''), (''/d/a.toml'', ''a'')]
     [(''/d'', FileList [DirInfo ''a'' (FileList [FileInfo ''z.toml'']), FileInfo ''a.toml''])]
     [(''z'', base), (''a'', override)]"

text \<open>
  The TLS entries of the files of one directory itself, in the order of the listing;
  the files of its subdirectories are not among them.
\<close>

fun ownTLS :: "world \<Rightarrow> string \<Rightarrow> dirent list \<Rightarrow> ref list" where
  "ownTLS w directory [] = []"
| "ownTLS w directory (DirInfo name sub # items) = ownTLS w directory items"
| "ownTLS w directory (FileInfo name # items) =
     (if \<not> HasSuffix name ''.toml'' \<and> \<not> HasSuffix name ''.tmpl'' then ownTLS w directory items
      else (case loadFileConfig w (pathJoin w directory name) True of
              Inl err \<Rightarrow> ownTLS w directory items
            | Inr c \<Rightarrow> slice (TLS c) @ ownTLS w directory items))"

text \<open>
  The visits of a directory tree in the order in which they end, each with the TLS
  entries of the files of the visited directory itself: the subdirectories in the order
  of the listing, then the directory.
\<close>

fun ownBlocks :: "world \<Rightarrow> string \<Rightarrow> listing \<Rightarrow> ref list list"
  and subBlocks :: "world \<Rightarrow> string \<Rightarrow> dirent list \<Rightarrow> ref list list" where
  "ownBlocks w directory (ReadDirError err) = []"
| "ownBlocks w directory (FileList fileList) =
     subBlocks w directory fileList @ [ownTLS w directory fileList]"
| "subBlocks w directory [] = []"
| "subBlocks w directory (FileInfo name # items) = subBlocks w directory items"
| "subBlocks w directory (DirInfo name sub # items) =
     ownBlocks w (pathJoin w directory name) sub @ subBlocks w directory items"

text \<open>The entries \<open>own\<close> in some order, each once.\<close>

definition arranges :: "ref list \<Rightarrow> ref list \<Rightarrow> bool" where
  "arranges b own \<longleftrightarrow> distinct b \<and> set b = set own"

text \<open>How often the entry \<open>x\<close> is repeated within the visits.\<close>

definition repeats :: "ref \<Rightarrow> ref list list \<Rightarrow> nat" where
  "repeats x blocks = sum_list (map (\<lambda>own. count_list own x - 1) blocks)"

definition tlsOf :: "configuration option \<Rightarrow> ref list" where
  "tlsOf a = (case a of None \<Rightarrow> [] | Some c \<Rightarrow> slice (TLS c))"

definition tlsWarnings :: "ref \<Rightarrow> logentry list \<Rightarrow> nat" where
  "tlsWarnings x lg = count_list lg (WarnTLS x)"

text \<open>
  One TLS entry, of address 7, in three files: two of the directory and one of its
  subdirectory.
\<close>

definition cert :: configuration where
  "cert = \<lparr>Routers = None, Middlewares = None, Services = None, TLS = Some [7]\<rparr>"

definition nestedCerts :: world where
  "nestedCerts = testWorld [(''/d/a.toml'', ''x''), (''/d/c.toml'', ''x''), (''/d/s/b.toml'', ''x'')]
     [(''/d'', FileList [FileInfo ''a.toml'', FileInfo ''c.toml'',
                         DirInfo ''s'' (FileList [FileInfo ''b.toml''])])]
     [(''x'', cert)]"

text \<open>
  Two snapshots with the same mappings and the same TLS entries, each as often in the
  one as in the other; the order of the TLS entries may differ.
\<close>

definition sameMap :: "gomap \<Rightarrow> gomap \<Rightarrow> bool" where
  "sameMap m n \<longleftrightarrow> map_option map_of m = map_option map_of n"

definition same :: "configuration option \<Rightarrow> configuration option \<Rightarrow> bool" where
  "same a b =
     (case (a, b) of
        (None, None) \<Rightarrow> True
      | (Some x, Some y) \<Rightarrow>
          sameMap (Routers x) (Routers y) \<and> sameMap (Middlewares x) (Middlewares y)
          \<and> sameMap (Services x) (Services y) \<and> map_option mset (TLS x) = map_option mset (TLS y)
      | _ \<Rightarrow> False)"

text \<open>One file with a router and two TLS entries.\<close>

definition twoCerts :: world where
  "twoCerts = testWorld [(''/d/a.toml'', ''x'')] [(''/d'', FileList [FileInfo ''a.toml''])]
     [(''x'', \<lparr>Routers = Some [(''r1'', 1)], Middlewares = None, Services = None,
               TLS = Some [7, 8]\<rparr>)]"

text \<open>
  A file with two TLS entries in a directory, and a file with a third entry in its
  subdirectory.
\<close>

definition crossCerts :: world where
  "crossCerts = testWorld [(''/d/a.toml'', ''x''), (''/d/s/b.toml'', ''y'')]
     [(''/d'', FileList [FileInfo ''a.toml'', DirInfo ''s'' (FileList [FileInfo ''b.toml''])])]
     [(''x'', \<lparr>Routers = Some [(''r1'', 1)], Middlewares = None, Services = None,
               TLS = Some [7, 8]\<rparr>),
      (''y'', \<lparr>Routers = None, Middlewares = None, Services = None, TLS = Some [9]\<rparr>)]"

section \<open>Properties\<close>

subsection \<open>Library functions\<close>

lemma Split_append:
  assumes "CHR ''/'' \<notin> set f"
  shows "Split (d @ CHR ''/'' # f) = (d @ [CHR ''/''], f)"
proof -
  have "dropWhile (\<lambda>c. c \<noteq> CHR ''/'') (rev f @ CHR ''/'' # rev d) = CHR ''/'' # rev d"
    using assms by (subst dropWhile_append2) auto
  then show ?thesis by (simp add: Split_def Let_def)
qed

subsection \<open>No target\<close>

text \<open>
  C4. With no directory, no filename and no fallback file, \<open>BuildConfiguration\<close>
  returns the error of the missing target and no snapshot; \<open>Provide\<close> returns that
  error to its caller, sends nothing on the channel and starts no watcher task, so that
  nothing is sent later either.
\<close>

theorem no_target_is_an_error:
  assumes "Directory p = []" and "Filename p = []" and "TraefikFile p = []"
  shows "BuildConfiguration w \<sigma> p r = Return (r, None, Some NoFilenameDefined)
       \<and> Provide w \<sigma> p r configurationChan pool
           = Return (Some NoFilenameDefined, r, configurationChan, pool)"
  using assms by (simp add: BuildConfiguration_def Provide_def)

theorem no_target_is_an_error_witness:
  "Directory noTarget = [] \<and> Filename noTarget = [] \<and> TraefikFile noTarget = []
   \<and> BuildConfiguration emptyWorld inOrder noTarget start
        = Return (start, None, Some NoFilenameDefined)
   \<and> Provide emptyWorld inOrder noTarget start [] []
        = Return (Some NoFilenameDefined, start, [], [])"
  using no_target_is_an_error [of noTarget emptyWorld inOrder start "[]" "[]"]
  by (simp add: noTarget_def)

subsection \<open>The relevance filter of the watcher\<close>

text \<open>
  C5. An event reaches the callback when the target is a directory; when the target is
  a file (the configured file, else the fallback file) it reaches the callback if and
  only if the file name component of its path is the file name component of the target,
  whatever the directories; any other event leaves the state as it is.
\<close>

theorem relevance_filter:
  "(Directory p \<noteq> [] \<longrightarrow> onEvent p callback evt st = callback evt st)
   \<and> (Directory p = [] \<longrightarrow>
        onEvent p callback evt st =
          (if snd (Split evt) = snd (Split (if Filename p \<noteq> [] then Filename p else TraefikFile p))
           then callback evt st else Return st))
   \<and> (Directory p = [] \<and> CHR ''/'' \<notin> set f \<and> CHR ''/'' \<notin> set g
        \<and> (if Filename p \<noteq> [] then Filename p else TraefikFile p) = d @ ''/'' @ f \<longrightarrow>
        onEvent p callback (d' @ ''/'' @ g) st = (if g = f then callback (d' @ ''/'' @ g) st else Return st))"
proof (intro conjI impI)
  assume "Directory p \<noteq> []"
  then show "onEvent p callback evt st = callback evt st"
    by (simp add: onEvent_def)
next
  assume "Directory p = []"
  then show "onEvent p callback evt st =
      (if snd (Split evt) = snd (Split (if Filename p \<noteq> [] then Filename p else TraefikFile p))
       then callback evt st else Return st)"
    by (simp add: onEvent_def Let_def)
next
  assume a: "Directory p = [] \<and> CHR ''/'' \<notin> set f \<and> CHR ''/'' \<notin> set g
        \<and> (if Filename p \<noteq> [] then Filename p else TraefikFile p) = d @ ''/'' @ f"
  then have "snd (Split (d' @ ''/'' @ g)) = g"
    and "snd (Split (if length (Filename p) > 0 then Filename p else TraefikFile p)) = f"
    by (simp_all add: Split_append)
  with a show "onEvent p callback (d' @ ''/'' @ g) st =
      (if g = f then callback (d' @ ''/'' @ g) st else Return st)"
    by (simp add: onEvent_def Let_def)
qed

theorem relevance_filter_witness:
  "onEvent dirTarget counting ''/a/b/other.ext'' 0 = Return 1
   \<and> onEvent fileTarget counting ''/a/b/conf.ext'' 0 = Return 1
   \<and> onEvent fileTarget counting ''/a/b/other.ext'' 0 = Return 0
   \<and> onEvent fileTarget counting ''/x/conf.ext'' 0 = Return 1
   \<and> onEvent fallbackTarget counting ''/a/b/conf.ext'' 0 = Return 1
   \<and> onEvent fallbackTarget counting ''/a/b/conf.ex'' 0 = Return 0"
  using relevance_filter [of dirTarget counting "''/a/b/other.ext''" 0]
    relevance_filter [of fileTarget counting "''/a/b/conf.ext''" 0]
    relevance_filter [of fileTarget counting "''/a/b/other.ext''" 0]
    relevance_filter [of fileTarget counting "''/x/conf.ext''" 0]
    relevance_filter [of fallbackTarget counting "''/a/b/conf.ext''" 0]
    relevance_filter [of fallbackTarget counting "''/a/b/conf.ex''" 0]
  by (simp add: dirTarget_def fileTarget_def fallbackTarget_def counting_def Split_def)

subsection \<open>The watched target has gone\<close>

text \<open>
  C10. When \<open>os.Stat\<close> fails on the target (the directory, else the file name, else
  the fallback file), the callback logs the error and returns: the channel is as it was,
  and nothing of a build has happened (no file is read, no range loop has run).
\<close>

theorem stat_failure_skips_rebuild:
  assumes "osStat w (if Directory p \<noteq> [] then Directory p
                     else if Filename p \<noteq> [] then Filename p else TraefikFile p) = Some err"
  shows "watcherCallback w \<sigma> p event (r, configurationChan) =
           Return (r\<lparr>logs := logs r @ [ErrorUnableToWatch
                      (if Directory p \<noteq> [] then Directory p
                       else if Filename p \<noteq> [] then Filename p else TraefikFile p) err]\<rparr>,
                   configurationChan)"
  using assms by (auto simp: Let_def split: if_splits)

theorem stat_failure_skips_rebuild_witness:
  "osStat emptyWorld ''/a/b/conf.ext'' = Some (External ''no such file or directory'')
   \<and> watcherCallback emptyWorld inOrder fileTarget ''/a/b/conf.ext'' (start, [])
       = Return (\<lparr>logs = [ErrorUnableToWatch ''/a/b/conf.ext'' (External ''no such file or directory'')],
                  ticks = 0\<rparr>, [])"
  using stat_failure_skips_rebuild [of emptyWorld fileTarget "External ''no such file or directory''"
      inOrder "''/a/b/conf.ext''" start "[]"]
  by (simp add: emptyWorld_def testWorld_def fileTarget_def start_def)

subsection \<open>Precedence of the targets\<close>

text \<open>
  C7. \<open>BuildConfiguration\<close> takes the directory when one is configured, whatever the
  other two fields hold; otherwise the file name, built through the template engine
  (the direct decoding plays no part); otherwise the fallback file, decoded directly
  (the template engine plays no part). With \<open>Watch\<close> set, a successful \<open>Provide\<close>
  subscribes the watcher with the same precedence: to the directory, else to the
  directory of the file name, else to the directory of the fallback file.
\<close>

theorem target_precedence:
  "(Directory p \<noteq> [] \<longrightarrow>
      BuildConfiguration w \<sigma> p r
        = loadFileConfigFromDirectory w \<sigma> (Directory p) (ioReadDir w (Directory p)) r None
      \<and> BuildConfiguration w \<sigma> (p\<lparr>Filename := f, TraefikFile := t\<rparr>) r = BuildConfiguration w \<sigma> p r)
   \<and> (Directory p = [] \<and> Filename p \<noteq> [] \<longrightarrow>
      BuildConfiguration w \<sigma> p r = Return (r, returned (loadFileConfig w (Filename p) True))
      \<and> BuildConfiguration w \<sigma> (p\<lparr>TraefikFile := t\<rparr>) r = BuildConfiguration w \<sigma> p r
      \<and> BuildConfiguration (w\<lparr>DecodeConfiguration := e\<rparr>) \<sigma> p r = BuildConfiguration w \<sigma> p r)
   \<and> (Directory p = [] \<and> Filename p = [] \<and> TraefikFile p \<noteq> [] \<longrightarrow>
      BuildConfiguration w \<sigma> p r = Return (r, returned (loadFileConfig w (TraefikFile p) False))
      \<and> BuildConfiguration (w\<lparr>CreateConfiguration := e\<rparr>) \<sigma> p r = BuildConfiguration w \<sigma> p r)
   \<and> (Watch p \<and> Provide w \<sigma> p r configurationChan pool = Return (None, r', chan', pool') \<longrightarrow>
      pool' = pool @ [if Directory p \<noteq> [] then Directory p
                      else if Filename p \<noteq> [] then pathDir w (Filename p)
                      else pathDir w (TraefikFile p)])"
proof (intro conjI impI)
  assume "Watch p \<and> Provide w \<sigma> p r configurationChan pool = Return (None, r', chan', pool')"
  then show "pool' = pool @ [if Directory p \<noteq> [] then Directory p
                      else if Filename p \<noteq> [] then pathDir w (Filename p)
                      else pathDir w (TraefikFile p)]"
    by (auto simp: Provide_def addWatcher_def Let_def
        split: outcome.splits option.splits sum.splits if_splits)
qed (auto simp: BuildConfiguration_def loadFileConfig_def readFile_def split: sum.splits)

theorem target_precedence_witness:
  "BuildConfiguration twoEngines inOrder dirTarget start
      = Return (\<lparr>logs = [], ticks = 1\<rparr>, Some emptyConfiguration, None)
   \<and> BuildConfiguration twoEngines inOrder fileTarget start = Return (start, Some rendered, None)
   \<and> BuildConfiguration twoEngines inOrder fallbackTarget start = Return (start, Some decoded, None)
   \<and> Provide twoEngines inOrder dirTarget start [] []
      = Return (None, \<lparr>logs = [], ticks = 1\<rparr>,
                [\<lparr>ProviderName = ''file'', Configuration = Some emptyConfiguration\<rparr>], [''/a/b''])
   \<and> Provide twoEngines inOrder fileTarget start [] []
      = Return (None, start, [\<lparr>ProviderName = ''file'', Configuration = Some rendered\<rparr>], [''/a/b/''])
   \<and> Provide twoEngines inOrder fallbackTarget start [] []
      = Return (None, start, [\<lparr>ProviderName = ''file'', Configuration = Some decoded\<rparr>], [''/a/b/''])"
proof -
  have d: "BuildConfiguration twoEngines inOrder dirTarget start
      = Return (\<lparr>logs = [], ticks = 1\<rparr>, Some emptyConfiguration, None)"
    using target_precedence [of dirTarget twoEngines inOrder start]
    by (simp add: dirTarget_def twoEngines_def testWorld_def inOrder_def start_def
        collectTLS_def emptyConfiguration_def)
  have f: "BuildConfiguration twoEngines inOrder fileTarget start = Return (start, Some rendered, None)"
    using target_precedence [of fileTarget twoEngines inOrder start]
    by (simp add: fileTarget_def twoEngines_def testWorld_def returned_def loadFileConfig_def
        readFile_def rendered_def)
  have t: "BuildConfiguration twoEngines inOrder fallbackTarget start = Return (start, Some decoded, None)"
    using target_precedence [of fallbackTarget twoEngines inOrder start]
    by (simp add: fallbackTarget_def twoEngines_def testWorld_def returned_def loadFileConfig_def
        readFile_def decoded_def)
  show ?thesis
    by (simp add: d f t Provide_def addWatcher_def sendConfigToChannel_def)
      (simp add: dirTarget_def fileTarget_def fallbackTarget_def twoEngines_def testWorld_def
        Split_def sendConfigToChannel_def)
qed

subsection \<open>The loops of a merge\<close>

lemma mergeNamed_nil: "xs \<noteq> [] \<Longrightarrow> mergeNamed f xs lg None = Panic"
  by (cases xs) (auto simp: exists_def entries_def assign_def)

lemma mergeNamed_Some:
  "\<exists>lg' es'. mergeNamed f xs lg (Some es) = Return (lg', Some es')"
  by (induction xs arbitrary: lg es) (auto simp: assign_def)

lemma mergeNamed_map:
  "mergeNamed f xs lg (Some es) = Return (lg', m') \<Longrightarrow>
     \<exists>es'. m' = Some es' \<and> map_of es' = map_of xs ++ map_of es"
proof (induction xs arbitrary: lg es)
  case Nil
  then show ?case by auto
next
  case (Cons x xs)
  obtain name conf where x: "x = (name, conf)" by (cases x)
  show ?case
  proof (cases "exists (Some es) name")
    case True
    with Cons.prems x have "mergeNamed f xs (lg @ [WarnField f name (skipping f)]) (Some es) = Return (lg', m')"
      by simp
    from Cons.IH [OF this] obtain es' where es': "m' = Some es'" "map_of es' = map_of xs ++ map_of es"
      by blast
    from True obtain v where "map_of es name = Some v"
      by (auto simp: exists_def entries_def)
    then have "map_of (x # xs) ++ map_of es = map_of xs ++ map_of es"
      using x by (auto simp: map_add_def fun_eq_iff split: option.splits)
    with es' show ?thesis by metis
  next
    case False
    with Cons.prems x have "mergeNamed f xs lg (Some (AList.update name conf es)) = Return (lg', m')"
      by (simp add: assign_def)
    from Cons.IH [OF this] obtain es' where es': "m' = Some es'"
        "map_of es' = map_of xs ++ map_of (AList.update name conf es)"
      by blast
    from False have "map_of es name = None"
      by (auto simp: exists_def entries_def)
    then have "map_of xs ++ map_of (AList.update name conf es) = map_of (x # xs) ++ map_of es"
      using x by (auto simp: map_add_def fun_eq_iff update_conv' split: option.splits)
    with es' show ?thesis by metis
  qed
qed

lemma mergeNamed_logs:
  "mergeNamed f xs lg m = Return (lg', m') \<Longrightarrow> distinct (map fst xs) \<Longrightarrow>
     lg' = lg @ map (\<lambda>name. WarnField f name (skipping f)) (filter (exists m) (map fst xs))"
proof (induction xs arbitrary: lg m)
  case Nil
  then show ?case by simp
next
  case (Cons x xs)
  obtain name conf where x: "x = (name, conf)" by (cases x)
  show ?case
  proof (cases "exists m name")
    case True
    with Cons.prems x have "mergeNamed f xs (lg @ [WarnField f name (skipping f)]) m = Return (lg', m')"
      by simp
    from Cons.IH [OF this] Cons.prems(2) True x show ?thesis by simp
  next
    case False
    with Cons.prems x obtain es where m: "m = Some es"
      and run: "mergeNamed f xs lg (Some (AList.update name conf es)) = Return (lg', m')"
      by (auto simp: assign_def split: option.splits)
    have "filter (exists (Some (AList.update name conf es))) (map fst xs) = filter (exists m) (map fst xs)"
      using Cons.prems(2) x m
      by (intro filter_cong) (auto simp: exists_def entries_def update_conv')
    with Cons.IH [OF run] Cons.prems(2) False x show ?thesis by simp
  qed
qed

subsection \<open>The mappings of the accumulator are never nil\<close>

lemma mergeSnapshot_good:
  assumes "good configuration"
  shows "\<exists>r' configuration' tm'.
           mergeSnapshot \<sigma> c r configuration tm = Return (r', configuration', tm')
           \<and> good configuration'"
proof -
  from assms obtain acc rs ms ss where acc: "configuration = Some acc"
      "Routers acc = Some rs" "Middlewares acc = Some ms" "Services acc = Some ss"
    by (auto simp: good_def split: option.splits)
  obtain lg1 rs' where 1: "mergeNamed RouterName (mapOrder \<sigma> (ticks r) (entries (Routers c))) (logs r) (Some rs)
      = Return (lg1, Some rs')"
    using mergeNamed_Some by blast
  obtain lg2 ms' where 2: "mergeNamed MiddlewareName (mapOrder \<sigma> (Suc (ticks r)) (entries (Middlewares c))) lg1 (Some ms)
      = Return (lg2, Some ms')"
    using mergeNamed_Some by blast
  obtain lg3 ss' where 3: "mergeNamed ServiceName (mapOrder \<sigma> (Suc (Suc (ticks r))) (entries (Services c))) lg2 (Some ss)
      = Return (lg3, Some ss')"
    using mergeNamed_Some by blast
  show ?thesis
    by (simp add: mergeSnapshot_def Let_def acc 1 2 3 good_def split: prod.splits)
qed

lemma collectTLS_good:
  assumes "good configuration"
  shows "\<exists>r' configuration'.
           collectTLS \<sigma> r configuration tm = Return (r', configuration') \<and> good configuration'"
  using assms by (auto simp: collectTLS_def Let_def good_def split: option.splits)

lemma good_emptyConfiguration: "good (Some emptyConfiguration)"
  by (simp add: good_def emptyConfiguration_def)

lemma good_start:
  "a = None \<or> good a \<Longrightarrow> good (case a of None \<Rightarrow> Some emptyConfiguration | Some c \<Rightarrow> Some c)"
  by (cases a) (simp_all add: good_emptyConfiguration)

lemma walk_good:
  "good configuration \<or> configuration = None \<Longrightarrow>
     \<exists>r' configuration' e.
        loadFileConfigFromDirectory w \<sigma> directory l r configuration = Return (r', configuration', e)
        \<and> (e = None \<or> good configuration \<longrightarrow> good configuration')"
  "good configuration \<Longrightarrow>
     \<exists>r' configuration'.
        ((\<exists>tm'. forItems w \<sigma> directory items r configuration tm = Return (Fallthrough r' configuration' tm'))
         \<or> (\<exists>err. forItems w \<sigma> directory items r configuration tm = Return (Returned r' configuration' err)))
        \<and> good configuration'"
proof (induction w \<sigma> directory l r configuration and w \<sigma> directory items r configuration tm
    rule: loadFileConfigFromDirectory_forItems.induct)
  case (1 w \<sigma> directory err r configuration)
  then show ?case by simp
next
  case (2 w \<sigma> directory fileList r configuration)
  let ?c = "case configuration of None \<Rightarrow> Some emptyConfiguration | Some c \<Rightarrow> Some c"
  from 2(2) have g: "good ?c"
    by (auto simp: good_emptyConfiguration split: option.splits)
  from 2(1) [OF g] obtain r' configuration' where
    res: "(\<exists>tm'. forItems w \<sigma> directory fileList r ?c [] = Return (Fallthrough r' configuration' tm'))
       \<or> (\<exists>err. forItems w \<sigma> directory fileList r ?c [] = Return (Returned r' configuration' err))"
    and g': "good configuration'"
    by blast
  from res show ?case
  proof
    assume "\<exists>tm'. forItems w \<sigma> directory fileList r ?c [] = Return (Fallthrough r' configuration' tm')"
    then obtain tm' where f: "forItems w \<sigma> directory fileList r ?c [] = Return (Fallthrough r' configuration' tm')"
      by blast
    from collectTLS_good [OF g'] obtain r'' configuration'' where
      "collectTLS \<sigma> r' configuration' tm' = Return (r'', configuration'')" "good configuration''"
      by blast
    with f show ?thesis by simp
  next
    assume "\<exists>err. forItems w \<sigma> directory fileList r ?c [] = Return (Returned r' configuration' err)"
    with g' show ?thesis by auto
  qed
next
  case (3 w \<sigma> directory r configuration configTLSMaps)
  then show ?case by simp
next
  case (4 w \<sigma> directory name sub items r configuration configTLSMaps)
  from 4(1) 4(3) obtain r' configuration' e where
    l: "loadFileConfigFromDirectory w \<sigma> (pathJoin w directory name) sub r configuration
        = Return (r', configuration', e)" and g': "good configuration'"
    by blast
  show ?case
  proof (cases e)
    case None
    with 4(2) [OF l [unfolded None] refl refl refl g'] l show ?thesis by simp
  next
    case (Some err)
    with l g' show ?thesis by auto
  qed
next
  case (5 w \<sigma> directory name items r configuration configTLSMaps)
  show ?case
  proof (cases "\<not> HasSuffix name ''.toml'' \<and> \<not> HasSuffix name ''.tmpl''")
    case True
    with 5(1) [OF True 5(3)] show ?thesis by simp
  next
    case False
    then have F: "(\<not> HasSuffix name ''.toml'' \<and> \<not> HasSuffix name ''.tmpl'') = False"
      by simp
    show ?thesis
    proof (cases "loadFileConfig w (pathJoin w directory name) True")
      case (Inl err)
      with 5(3) show ?thesis by (simp add: F)
    next
      case (Inr c)
      from mergeSnapshot_good [OF 5(3)] obtain r' configuration' tm' where
        m: "mergeSnapshot \<sigma> c r configuration configTLSMaps = Return (r', configuration', tm')"
        and g': "good configuration'"
        by blast
      from 5(2) [OF False Inr m refl refl g'] Inr m show ?thesis by (simp add: F)
    qed
  qed
qed

lemma BuildConfiguration_returns:
  "\<exists>r' configuration e. BuildConfiguration w \<sigma> p r = Return (r', configuration, e)
     \<and> (e = None \<longrightarrow> configuration \<noteq> None)
     \<and> (Directory p \<noteq> [] \<and> e = None \<longrightarrow> good configuration)"
proof (cases "Directory p = []")
  case True
  then show ?thesis
    by (auto simp: BuildConfiguration_def returned_def split: sum.splits)
next
  case False
  from walk_good(1) [of None w \<sigma> "Directory p" "ioReadDir w (Directory p)" r]
  obtain r' configuration e where
    "loadFileConfigFromDirectory w \<sigma> (Directory p) (ioReadDir w (Directory p)) r None
       = Return (r', configuration, e)" "e = None \<longrightarrow> good configuration"
    by auto
  with False show ?thesis
    by (auto simp: BuildConfiguration_def good_def split: option.splits)
qed

subsection \<open>Rebuilds of the watcher\<close>

text \<open>
  C6. When the target is there, a rebuild of the callback either fails or succeeds (it
  never panics). When \<open>BuildConfiguration\<close> fails, the error is logged, the channel
  is as it was, and the task goes on with its next signals. When it succeeds, the channel
  gets exactly one more message, which carries the provider name and the new snapshot.
\<close>

theorem rebuild_delivers_or_logs:
  assumes "osStat w (if Directory p \<noteq> [] then Directory p
                     else if Filename p \<noteq> [] then Filename p else TraefikFile p) = None"
  shows "(\<exists>r' configuration e. BuildConfiguration w \<sigma> p r = Return (r', configuration, e))
    \<and> (BuildConfiguration w \<sigma> p r = Return (r', configuration, Some err) \<longrightarrow>
          watcherCallback w \<sigma> p evt (r, configurationChan)
            = Return (r'\<lparr>logs := logs r' @ [ErrorWatcherCallback err]\<rparr>, configurationChan)
          \<and> (Directory p \<noteq> []
               \<or> snd (Split evt) = snd (Split (if Filename p \<noteq> [] then Filename p else TraefikFile p)) \<longrightarrow>
             watchTask \<sigma> p ((w, Event evt) # rest) (r, configurationChan)
               = watchTask \<sigma> p rest
                   (r'\<lparr>logs := logs r' @ [ErrorWatcherCallback err]\<rparr>, configurationChan)))
    \<and> (BuildConfiguration w \<sigma> p r = Return (r', configuration, None) \<longrightarrow>
          configuration \<noteq> None
          \<and> watcherCallback w \<sigma> p evt (r, configurationChan)
            = Return (r', configurationChan @ [\<lparr>ProviderName = ''file'', Configuration = configuration\<rparr>]))"
proof (intro conjI impI)
  show "\<exists>r' configuration e. BuildConfiguration w \<sigma> p r = Return (r', configuration, e)"
    using BuildConfiguration_returns [of w \<sigma> p r] by blast
next
  assume b: "BuildConfiguration w \<sigma> p r = Return (r', configuration, Some err)"
  with assms show cb: "watcherCallback w \<sigma> p evt (r, configurationChan)
            = Return (r'\<lparr>logs := logs r' @ [ErrorWatcherCallback err]\<rparr>, configurationChan)"
    by (auto simp: Let_def split: if_splits)
  assume "Directory p \<noteq> []
      \<or> snd (Split evt) = snd (Split (if Filename p \<noteq> [] then Filename p else TraefikFile p))"
  then have "onEvent p (watcherCallback w \<sigma> p) evt (r, configurationChan)
      = watcherCallback w \<sigma> p evt (r, configurationChan)"
    by (auto simp: onEvent_def Let_def)
  with cb show "watchTask \<sigma> p ((w, Event evt) # rest) (r, configurationChan)
               = watchTask \<sigma> p rest
                   (r'\<lparr>logs := logs r' @ [ErrorWatcherCallback err]\<rparr>, configurationChan)"
    by simp
next
  assume b: "BuildConfiguration w \<sigma> p r = Return (r', configuration, None)"
  with BuildConfiguration_returns [of w \<sigma> p r] show "configuration \<noteq> None"
    by auto
  from b assms show "watcherCallback w \<sigma> p evt (r, configurationChan)
      = Return (r', configurationChan @ [\<lparr>ProviderName = ''file'', Configuration = configuration\<rparr>])"
    by (auto simp: Let_def sendConfigToChannel_def split: if_splits)
qed

theorem rebuild_delivers_or_logs_witness:
  "osStat brokenWorld ''/a/b/conf.ext'' = None
   \<and> osStat twoEngines ''/a/b/conf.ext'' = None
   \<and> watcherCallback brokenWorld inOrder fileTarget ''/a/b/conf.ext'' (start, [])
       = Return (\<lparr>logs = [ErrorWatcherCallback (External ''cannot decode'')], ticks = 0\<rparr>, [])
   \<and> watcherCallback twoEngines inOrder fileTarget ''/a/b/conf.ext'' (start, [])
       = Return (start, [\<lparr>ProviderName = ''file'', Configuration = Some rendered\<rparr>])
   \<and> watchTask inOrder fileTarget
         [(brokenWorld, Event ''/a/b/conf.ext''), (twoEngines, Event ''/a/b/conf.ext'')] (start, [])
       = Return (False, \<lparr>logs = [ErrorWatcherCallback (External ''cannot decode'')], ticks = 0\<rparr>,
                 [\<lparr>ProviderName = ''file'', Configuration = Some rendered\<rparr>])"
proof -
  have s: "osStat brokenWorld ''/a/b/conf.ext'' = None" "osStat twoEngines ''/a/b/conf.ext'' = None"
    by (simp_all add: brokenWorld_def twoEngines_def testWorld_def)
  have b: "BuildConfiguration brokenWorld inOrder fileTarget r
      = Return (r, None, Some (External ''cannot decode''))" for r
    by (simp add: BuildConfiguration_def fileTarget_def brokenWorld_def testWorld_def returned_def
        loadFileConfig_def readFile_def)
  have t: "BuildConfiguration twoEngines inOrder fileTarget r = Return (r, Some rendered, None)" for r
    by (simp add: BuildConfiguration_def fileTarget_def twoEngines_def testWorld_def returned_def
        loadFileConfig_def readFile_def rendered_def)
  have f: "Directory fileTarget = []" "Filename fileTarget = ''/a/b/conf.ext''"
    by (simp_all add: fileTarget_def)
  show ?thesis
    using rebuild_delivers_or_logs [of brokenWorld fileTarget inOrder start start None
        "External ''cannot decode''" "''/a/b/conf.ext''" "[]" "[(twoEngines, Event ''/a/b/conf.ext'')]"]
      rebuild_delivers_or_logs [of twoEngines fileTarget inOrder start start "Some rendered"
        undefined "''/a/b/conf.ext''" "[]" "[]"]
      rebuild_delivers_or_logs [of twoEngines fileTarget inOrder
        "\<lparr>logs = [ErrorWatcherCallback (External ''cannot decode'')], ticks = 0\<rparr>"
        "\<lparr>logs = [ErrorWatcherCallback (External ''cannot decode'')], ticks = 0\<rparr>" "Some rendered"
        undefined "''/a/b/conf.ext''" "[]" "[]"]
    by (simp add: s b t f onEvent_def start_def)
qed

subsection \<open>Nil mappings\<close>

text \<open>
  C2, as a single file is built: the template engine returns a snapshot with one router
  and no other field, and the successful build returns it with nil middlewares and
  services.
\<close>

theorem nil_mapping_counterexample:
  "BuildConfiguration routersOnlyWorld inOrder fileTarget start
     = Return (start, Some \<lparr>Routers = Some [(''r1'', 1)], Middlewares = None, Services = None, TLS = None\<rparr>, None)
   \<and> \<not> good (Some \<lparr>Routers = Some [(''r1'', 1)], Middlewares = None, Services = None, TLS = None\<rparr>)"
  by (simp add: BuildConfiguration_def fileTarget_def routersOnlyWorld_def testWorld_def returned_def
      loadFileConfig_def readFile_def routersOnly_def good_def)

text \<open>
  C2, amended. A successful aggregation of a directory returns a snapshot whose three
  mappings are not nil. A single file whose engine returns no snapshot, or one whose
  routers, middlewares, services and TLS are all nil, builds to the snapshot with three
  empty mappings that are not nil; any other snapshot of the engine is returned as it
  is.
\<close>

theorem mappings_not_nil:
  "(Directory p \<noteq> [] \<and> BuildConfiguration w \<sigma> p r = Return (r', configuration, None) \<longrightarrow>
      good configuration)
   \<and> (readFile w filename = Inr content
       \<and> (if parseTemplate then CreateConfiguration w content else DecodeConfiguration w content) = (d, None) \<longrightarrow>
       (d = None \<or> (\<exists>x. d = Some x \<and> Routers x = None \<and> Middlewares x = None \<and> Services x = None \<and> TLS x = None) \<longrightarrow>
          loadFileConfig w filename parseTemplate = Inr emptyConfiguration)
       \<and> (\<forall>x. d = Some x \<and> \<not> (Routers x = None \<and> Middlewares x = None \<and> Services x = None \<and> TLS x = None) \<longrightarrow>
          loadFileConfig w filename parseTemplate = Inr x))
   \<and> Routers emptyConfiguration = Some [] \<and> Middlewares emptyConfiguration = Some []
   \<and> Services emptyConfiguration = Some [] \<and> TLS emptyConfiguration = None"
proof (intro conjI impI)
  assume "Directory p \<noteq> [] \<and> BuildConfiguration w \<sigma> p r = Return (r', configuration, None)"
  with BuildConfiguration_returns [of w \<sigma> p r] show "good configuration"
    by auto
qed (auto simp: loadFileConfig_def emptyConfiguration_def)

theorem mappings_not_nil_witness:
  "BuildConfiguration twoEngines inOrder dirTarget start
      = Return (\<lparr>logs = [], ticks = 1\<rparr>, Some emptyConfiguration, None)
   \<and> good (Some emptyConfiguration)
   \<and> readFile emptyDecode ''/a/b/conf.ext'' = Inr ''x''
   \<and> CreateConfiguration emptyDecode ''x'' = (Some \<lparr>Routers = None, Middlewares = None, Services = None, TLS = None\<rparr>, None)
   \<and> loadFileConfig emptyDecode ''/a/b/conf.ext'' True = Inr emptyConfiguration
   \<and> readFile routersOnlyWorld ''/a/b/conf.ext'' = Inr ''x''
   \<and> CreateConfiguration routersOnlyWorld ''x'' = (Some routersOnly, None)
   \<and> loadFileConfig routersOnlyWorld ''/a/b/conf.ext'' True = Inr routersOnly"
proof -
  have d: "BuildConfiguration twoEngines inOrder dirTarget start
      = Return (\<lparr>logs = [], ticks = 1\<rparr>, Some emptyConfiguration, None)"
    by (simp add: BuildConfiguration_def dirTarget_def twoEngines_def testWorld_def inOrder_def
        start_def collectTLS_def emptyConfiguration_def)
  have e: "readFile emptyDecode ''/a/b/conf.ext'' = Inr ''x''"
    "CreateConfiguration emptyDecode ''x'' = (Some \<lparr>Routers = None, Middlewares = None, Services = None, TLS = None\<rparr>, None)"
    by (simp_all add: emptyDecode_def testWorld_def readFile_def)
  have o: "readFile routersOnlyWorld ''/a/b/conf.ext'' = Inr ''x''"
    "CreateConfiguration routersOnlyWorld ''x'' = (Some routersOnly, None)"
    by (simp_all add: routersOnlyWorld_def testWorld_def readFile_def)
  have n: "Directory dirTarget = ''/a/b''" "Routers routersOnly = Some [(''r1'', 1)]"
    by (simp_all add: dirTarget_def routersOnly_def)
  show ?thesis
    using mappings_not_nil [of dirTarget twoEngines inOrder start "\<lparr>logs = [], ticks = 1\<rparr>"
        "Some emptyConfiguration" "''/a/b/conf.ext''" "''x''" True None]
      mappings_not_nil [of dirTarget emptyDecode inOrder start start None "''/a/b/conf.ext''" "''x''" True
        "Some \<lparr>Routers = None, Middlewares = None, Services = None, TLS = None\<rparr>"]
      mappings_not_nil [of dirTarget routersOnlyWorld inOrder start start None "''/a/b/conf.ext''" "''x''"
        True "Some routersOnly"]
    by (simp add: d e o n)
qed

subsection \<open>A merge in any order of the range\<close>

lemma warnings_append: "warnings g name (a @ b) = warnings g name a + warnings g name b"
  by (simp add: warnings_def)

lemma warnings_skipped:
  "distinct ns \<Longrightarrow>
     warnings g name (map (\<lambda>n. WarnField f n msg) ns) = (if g = f \<and> name \<in> set ns then 1 else 0)"
  by (induction ns) (auto simp: warnings_def filter_map comp_def)

lemma fair_map_of:
  assumes "mset xs = mset es" and "distinct (map fst es)"
  shows "distinct (map fst xs)" and "map_of xs = map_of es"
proof -
  from assms(1) have "mset (map fst xs) = mset (map fst es)"
    by (metis mset_map)
  with assms(2) show d: "distinct (map fst xs)"
    by (metis mset_eq_imp_distinct_iff)
  from assms(1) have "set xs = set es"
    by (metis mset_eq_setD)
  with d assms(2) show "map_of xs = map_of es"
    by (simp add: map_of_inject_set)
qed

lemma mergeNamed_fair:
  assumes "mset xs = mset es" and "distinct (map fst es)"
  shows "\<exists>lg' m'. mergeNamed f xs lg (Some acc) = Return (lg', Some m')
     \<and> map_of m' = map_of es ++ map_of acc
     \<and> (\<forall>g name. warnings g name lg' = warnings g name lg
           + (if g = f \<and> map_of acc name \<noteq> None \<and> map_of es name \<noteq> None then 1 else 0))"
proof -
  note p = fair_map_of [OF assms]
  obtain lg' m' where run: "mergeNamed f xs lg (Some acc) = Return (lg', Some m')"
    using mergeNamed_Some by blast
  from mergeNamed_map [OF run] p(2) have m: "map_of m' = map_of es ++ map_of acc"
    by simp
  have lg': "lg' = lg @ map (\<lambda>name. WarnField f name (skipping f))
      (filter (exists (Some acc)) (map fst xs))"
    using mergeNamed_logs [OF run p(1)] .
  have "warnings g name lg' = warnings g name lg
      + (if g = f \<and> map_of acc name \<noteq> None \<and> map_of es name \<noteq> None then 1 else 0)" for g name
  proof -
    have "name \<in> fst ` set xs \<longleftrightarrow> map_of es name \<noteq> None"
      using p(2) by (metis map_of_eq_None_iff)
    then show ?thesis
      using p(1) by (auto simp: lg' warnings_append warnings_skipped exists_def entries_def)
  qed
  with run m show ?thesis by blast
qed

lemma mergeTLS_warnings:
  "mergeTLS xs lg tm = (lg', tm') \<Longrightarrow> warnings g name lg' = warnings g name lg"
  by (induction xs arbitrary: lg tm) (auto simp: warnings_def split: if_splits)

lemma fair_reversed: "fair reversed"
  by (simp add: fair_def reversed_def)

lemma fair_inOrder: "fair inOrder"
  by (simp add: fair_def inOrder_def)

lemma mergeSnapshot_fair:
  assumes "fair \<sigma>" and "wellformed c" and "good (Some acc)"
  shows "\<exists>r' acc' tm'. mergeSnapshot \<sigma> c r (Some acc) tm = Return (r', Some acc', tm')
     \<and> good (Some acc')
     \<and> (\<forall>f name.
          (exists (mapping f acc) name \<longrightarrow>
             lookup (mapping f acc') name = lookup (mapping f acc) name
             \<and> warnings f name (logs r')
                 = warnings f name (logs r) + (if exists (mapping f c) name then 1 else 0))
        \<and> (\<not> exists (mapping f acc) name \<longrightarrow>
             lookup (mapping f acc') name = lookup (mapping f c) name
             \<and> warnings f name (logs r') = warnings f name (logs r)))"
proof -
  from assms(3) obtain rs ms ss where acc:
      "Routers acc = Some rs" "Middlewares acc = Some ms" "Services acc = Some ss"
    by (auto simp: good_def)
  from assms(1) have perm: "mset (mapOrder \<sigma> t es) = mset es" for t es
    by (simp add: fair_def)
  from assms(2) have d: "distinct (map fst (entries (Routers c)))"
      "distinct (map fst (entries (Middlewares c)))" "distinct (map fst (entries (Services c)))"
    by (simp_all add: wellformed_def)
  obtain lg1 rs' where 1:
    "mergeNamed RouterName (mapOrder \<sigma> (ticks r) (entries (Routers c))) (logs r) (Some rs)
       = Return (lg1, Some rs')"
    "map_of rs' = map_of (entries (Routers c)) ++ map_of rs"
    "\<And>g name. warnings g name lg1 = warnings g name (logs r)
       + (if g = RouterName \<and> map_of rs name \<noteq> None \<and> map_of (entries (Routers c)) name \<noteq> None
          then 1 else 0)"
    using mergeNamed_fair [OF perm d(1)] by blast
  obtain lg2 ms' where 2:
    "mergeNamed MiddlewareName (mapOrder \<sigma> (Suc (ticks r)) (entries (Middlewares c))) lg1 (Some ms)
       = Return (lg2, Some ms')"
    "map_of ms' = map_of (entries (Middlewares c)) ++ map_of ms"
    "\<And>g name. warnings g name lg2 = warnings g name lg1
       + (if g = MiddlewareName \<and> map_of ms name \<noteq> None \<and> map_of (entries (Middlewares c)) name \<noteq> None
          then 1 else 0)"
    using mergeNamed_fair [OF perm d(2)] by blast
  obtain lg3 ss' where 3:
    "mergeNamed ServiceName (mapOrder \<sigma> (Suc (Suc (ticks r))) (entries (Services c))) lg2 (Some ss)
       = Return (lg3, Some ss')"
    "map_of ss' = map_of (entries (Services c)) ++ map_of ss"
    "\<And>g name. warnings g name lg3 = warnings g name lg2
       + (if g = ServiceName \<and> map_of ss name \<noteq> None \<and> map_of (entries (Services c)) name \<noteq> None
          then 1 else 0)"
    using mergeNamed_fair [OF perm d(3)] by blast
  obtain lg tm' where 4: "mergeTLS (slice (TLS c)) lg3 tm = (lg, tm')"
    by (cases "mergeTLS (slice (TLS c)) lg3 tm")
  have w: "warnings g name lg = warnings g name lg3" for g name
    using mergeTLS_warnings [OF 4] .
  let ?acc' = "acc\<lparr>Routers := Some rs', Middlewares := Some ms', Services := Some ss'\<rparr>"
  have run: "mergeSnapshot \<sigma> c r (Some acc) tm = Return (\<lparr>logs = lg, ticks = ticks r + 3\<rparr>, Some ?acc', tm')"
    by (simp add: mergeSnapshot_def Let_def acc 1(1) 2(1) 3(1) 4)
  have "(exists (mapping f acc) name \<longrightarrow>
             lookup (mapping f ?acc') name = lookup (mapping f acc) name
             \<and> warnings f name lg
                 = warnings f name (logs r) + (if exists (mapping f c) name then 1 else 0))
        \<and> (\<not> exists (mapping f acc) name \<longrightarrow>
             lookup (mapping f ?acc') name = lookup (mapping f c) name
             \<and> warnings f name lg = warnings f name (logs r))" for f name
    by (cases f)
      (auto simp: acc 1(2,3) 2(2,3) 3(2,3) w exists_def lookup_def entries_def map_add_def
        split: option.splits)
  moreover have "good (Some ?acc')"
    by (simp add: good_def)
  ultimately show ?thesis
    using run by auto
qed

subsection \<open>The first merged definition wins\<close>

text \<open>
  C1. When the snapshot of a file is merged into an accumulator, for routers, for
  middlewares and for services alike: a name the accumulator holds keeps its payload, and
  the incoming entry of that name, if there is one, adds exactly one warning with that
  kind and that name; a name the accumulator does not hold gets the incoming payload,
  and adds no warning. This holds in every order the range loops may take.
\<close>

theorem first_merged_wins:
  assumes "fair \<sigma>" and "wellformed c" and "good (Some acc)"
  shows "\<exists>r' acc' tm'. mergeSnapshot \<sigma> c r (Some acc) tm = Return (r', Some acc', tm')
     \<and> (\<forall>f name.
          (exists (mapping f acc) name \<longrightarrow>
             lookup (mapping f acc') name = lookup (mapping f acc) name
             \<and> warnings f name (logs r')
                 = warnings f name (logs r) + (if exists (mapping f c) name then 1 else 0))
        \<and> (\<not> exists (mapping f acc) name \<longrightarrow>
             lookup (mapping f acc') name = lookup (mapping f c) name
             \<and> warnings f name (logs r') = warnings f name (logs r)))"
  using mergeSnapshot_fair [OF assms, of r tm] by blast

theorem first_merged_wins_witness:
  "fair reversed \<and> wellformed override \<and> good (Some base)
   \<and> mergeSnapshot reversed override start (Some base) []
       = Return (\<lparr>logs = [WarnField RouterName ''r1'' ''Router already configured, skipping''], ticks = 3\<rparr>,
                 Some \<lparr>Routers = Some [(''r1'', 1), (''r2'', 3)], Middlewares = Some [], Services = Some [],
                        TLS = None\<rparr>, [])"
proof -
  have h: "fair reversed" "wellformed override" "good (Some base)"
    by (simp_all add: fair_reversed wellformed_def override_def entries_def good_def base_def)
  from first_merged_wins [OF h, of start "[]"] h show ?thesis
    by (simp add: mergeSnapshot_def reversed_def override_def base_def start_def entries_def
        exists_def assign_def slice_def skipping_def)
qed

subsection \<open>The TLS entries of one directory\<close>

lemma mergeTLS_set:
  "mergeTLS xs lg tm = (lg', tm') \<Longrightarrow> distinct tm \<Longrightarrow>
     distinct tm' \<and> set tm' = set tm \<union> set xs
     \<and> (\<forall>x. tlsWarnings x lg' + count_list tm' x
            = tlsWarnings x lg + count_list tm x + count_list xs x)"
proof (induction xs arbitrary: lg tm)
  case Nil
  then show ?case by simp
next
  case (Cons a xs)
  show ?case
  proof (cases "a \<in> set tm")
    case True
    with Cons.prems have "mergeTLS xs (lg @ [WarnTLS a]) tm = (lg', tm')"
      by simp
    from Cons.IH [OF this Cons.prems(2)] True show ?thesis
      by (auto simp: tlsWarnings_def)
  next
    case False
    with Cons.prems have "mergeTLS xs lg (tm @ [a]) = (lg', tm')" and "distinct (tm @ [a])"
      by simp_all
    from Cons.IH [OF this] show ?thesis
      by (auto simp: tlsWarnings_def)
  qed
qed

lemma mergeNamed_tlsWarnings:
  "mergeNamed f xs lg m = Return (lg', m') \<Longrightarrow> tlsWarnings x lg' = tlsWarnings x lg"
proof (induction xs arbitrary: lg m)
  case Nil
  then show ?case by simp
next
  case (Cons a xs)
  obtain name conf where a: "a = (name, conf)" by (cases a)
  show ?case
  proof (cases "exists m name")
    case True
    with Cons.prems a have "mergeNamed f xs (lg @ [WarnField f name (skipping f)]) m = Return (lg', m')"
      by simp
    from Cons.IH [OF this] show ?thesis
      by (simp add: tlsWarnings_def)
  next
    case False
    with Cons.prems a obtain m1 where "mergeNamed f xs lg m1 = Return (lg', m')"
      by (auto split: outcome.splits)
    from Cons.IH [OF this] show ?thesis .
  qed
qed

lemma mergeSnapshot_TLS:
  assumes "mergeSnapshot \<sigma> c r configuration tm = Return (r', configuration', tm')"
    and "distinct tm"
  shows "distinct tm' \<and> set tm' = set tm \<union> set (slice (TLS c))
     \<and> map_option TLS configuration' = map_option TLS configuration
     \<and> (\<forall>x. tlsWarnings x (logs r') + count_list tm' x
            = tlsWarnings x (logs r) + count_list tm x + count_list (slice (TLS c)) x)"
proof (cases configuration)
  case None
  with assms(1) have "mergeTLS (slice (TLS c)) (logs r) tm = (logs r', tm')" and "configuration' = None"
    by (auto simp: mergeSnapshot_def Let_def split: if_splits prod.splits)
  with mergeTLS_set [OF this(1) assms(2)] None show ?thesis by simp
next
  case (Some acc)
  with assms(1) obtain lg1 routers lg2 middlewares lg3 services where
    1: "mergeNamed RouterName (mapOrder \<sigma> (ticks r) (entries (Routers c))) (logs r) (Routers acc)
          = Return (lg1, routers)" and
    2: "mergeNamed MiddlewareName (mapOrder \<sigma> (Suc (ticks r)) (entries (Middlewares c))) lg1 (Middlewares acc)
          = Return (lg2, middlewares)" and
    3: "mergeNamed ServiceName (mapOrder \<sigma> (Suc (Suc (ticks r))) (entries (Services c))) lg2 (Services acc)
          = Return (lg3, services)" and
    4: "mergeTLS (slice (TLS c)) lg3 tm = (logs r', tm')" and
    c': "configuration' = Some (acc\<lparr>Routers := routers, Middlewares := middlewares, Services := services\<rparr>)"
    by (auto simp: mergeSnapshot_def Let_def split: outcome.splits prod.splits)
  have "tlsWarnings x lg3 = tlsWarnings x (logs r)" for x
    using mergeNamed_tlsWarnings [OF 1] mergeNamed_tlsWarnings [OF 2] mergeNamed_tlsWarnings [OF 3]
    by simp
  with mergeTLS_set [OF 4 assms(2)] c' Some show ?thesis by simp
qed

lemma slice_appendAll: "slice (appendAll s xs) = slice s @ xs"
  by (induction xs arbitrary: s) (simp_all add: appendSlice_def slice_def)

lemma count_list_distinct: "distinct xs \<Longrightarrow> count_list xs x = (if x \<in> set xs then 1 else 0)"
  by (induction xs) auto

subsection \<open>The TLS entries of a directory tree\<close>

lemma repeats_append: "repeats x (bs @ cs) = repeats x bs + repeats x cs"
  by (simp add: repeats_def)

lemma repeats_single: "repeats x [own] = count_list own x - 1"
  by (simp add: repeats_def)

lemma tlsOf_start:
  "tlsOf (case a of None \<Rightarrow> Some emptyConfiguration | Some c \<Rightarrow> Some c) = tlsOf a"
  by (cases a) (simp_all add: tlsOf_def emptyConfiguration_def slice_def)

lemma collectTLS_block:
  assumes "fair \<sigma>" and "good a" and "distinct tm"
    and "collectTLS \<sigma> r a tm = Return (r', a')"
  shows "\<exists>b. tlsOf a' = tlsOf a @ b \<and> arranges b tm \<and> good a' \<and> logs r' = logs r"
proof -
  from assms(2) obtain c where a: "a = Some c"
    by (cases a) (simp_all add: good_def)
  let ?b = "setOrder \<sigma> (ticks r) tm"
  from assms(4) a have a': "a' = Some (c\<lparr>TLS := appendAll (TLS c) ?b\<rparr>)" and lg: "logs r' = logs r"
    by (auto simp: collectTLS_def Let_def)
  from assms(1) have "mset ?b = mset tm"
    by (simp add: fair_def)
  with assms(3) have "arranges ?b tm"
    unfolding arranges_def by (metis mset_eq_imp_distinct_iff mset_eq_setD)
  moreover have "tlsOf a' = tlsOf a @ ?b"
    by (simp add: a a' tlsOf_def slice_appendAll)
  moreover from assms(2) a a' have "good a'"
    by (simp add: good_def)
  ultimately show ?thesis
    using lg by blast
qed

lemma walk_TLS:
  "fair \<sigma> \<Longrightarrow> a = None \<or> good a \<Longrightarrow>
   loadFileConfigFromDirectory w \<sigma> directory l r a = Return (r', a', None) \<Longrightarrow>
     good a'
     \<and> (\<exists>bs. tlsOf a' = tlsOf a @ concat bs \<and> list_all2 arranges bs (ownBlocks w directory l))
     \<and> (\<forall>x. tlsWarnings x (logs r') = tlsWarnings x (logs r) + repeats x (ownBlocks w directory l))"
  "fair \<sigma> \<Longrightarrow> good a \<Longrightarrow> distinct tm \<Longrightarrow>
   forItems w \<sigma> directory items r a tm = Return (Fallthrough r' a' tm') \<Longrightarrow>
     good a' \<and> distinct tm' \<and> set tm' = set tm \<union> set (ownTLS w directory items)
     \<and> (\<exists>bs. tlsOf a' = tlsOf a @ concat bs \<and> list_all2 arranges bs (subBlocks w directory items))
     \<and> (\<forall>x. tlsWarnings x (logs r') + count_list tm' x
            = tlsWarnings x (logs r) + count_list tm x + count_list (ownTLS w directory items) x
              + repeats x (subBlocks w directory items))"
proof (induction w \<sigma> directory l r a and w \<sigma> directory items r a tm
    arbitrary: r' a' and r' a' tm'
    rule: loadFileConfigFromDirectory_forItems.induct)
  case (1 w \<sigma> directory err r a)
  then show ?case by simp
next
  case (2 w \<sigma> directory fileList r a)
  let ?a = "case a of None \<Rightarrow> Some emptyConfiguration | Some c \<Rightarrow> Some c"
  from "2.prems"(3) obtain r1 a1 tm1 where
    f: "forItems w \<sigma> directory fileList r ?a [] = Return (Fallthrough r1 a1 tm1)" and
    c: "collectTLS \<sigma> r1 a1 tm1 = Return (r', a')"
    by (auto split: outcome.splits loop.splits)
  have d0: "distinct ([]::ref list)"
    by simp
  note i = "2.IH" [OF "2.prems"(1) good_start [OF "2.prems"(2)] d0 f]
  from i have g1: "good a1" and d1: "distinct tm1"
    and s1: "set tm1 = set (ownTLS w directory fileList)"
    by simp_all
  from i obtain bs where bs: "tlsOf a1 = tlsOf a @ concat bs"
      "list_all2 arranges bs (subBlocks w directory fileList)"
    by (auto simp: tlsOf_start)
  from i have w1: "tlsWarnings x (logs r1) + count_list tm1 x
      = tlsWarnings x (logs r) + count_list (ownTLS w directory fileList) x
        + repeats x (subBlocks w directory fileList)" for x
    by simp
  from collectTLS_block [OF "2.prems"(1) g1 d1 c] obtain b where
    b: "tlsOf a' = tlsOf a1 @ b" "arranges b tm1" "good a'" "logs r' = logs r1"
    by blast
  from b(2) s1 have ab: "arranges b (ownTLS w directory fileList)"
    by (simp add: arranges_def)
  have "tlsOf a' = tlsOf a @ concat (bs @ [b])"
    using b(1) bs(1) by simp
  moreover have "list_all2 arranges (bs @ [b]) (ownBlocks w directory (FileList fileList))"
    using bs(2) ab by (simp add: list_all2_appendI)
  moreover have "tlsWarnings x (logs r')
      = tlsWarnings x (logs r) + repeats x (ownBlocks w directory (FileList fileList))" for x
  proof -
    have "count_list tm1 x = (if x \<in> set (ownTLS w directory fileList) then 1 else 0)"
      using d1 s1 by (simp add: count_list_distinct)
    moreover have "x \<in> set (ownTLS w directory fileList)
        \<Longrightarrow> count_list (ownTLS w directory fileList) x > 0"
      using count_list_0_iff [of "ownTLS w directory fileList" x] by simp
    ultimately show ?thesis
      using w1 [of x] b(4)
      by (cases "x \<in> set (ownTLS w directory fileList)")
        (auto simp: repeats_append repeats_single)
  qed
  ultimately show ?case
    using b(3) by blast
next
  case (3 w \<sigma> directory r a tm)
  then show ?case by (simp add: repeats_def)
next
  case (4 w \<sigma> directory name sub items r a tm)
  from "4.prems"(4) obtain r1 a1 where
    l: "loadFileConfigFromDirectory w \<sigma> (pathJoin w directory name) sub r a = Return (r1, a1, None)" and
    f: "forItems w \<sigma> directory items r1 a1 tm = Return (Fallthrough r' a' tm')"
    by (auto split: outcome.splits option.splits)
  from "4.prems"(2) have ga: "a = None \<or> good a"
    by simp
  note i1 = "4.IH"(1) [OF "4.prems"(1) ga l]
  from i1 have g1: "good a1"
    by simp
  from i1 obtain bs1 where bs1: "tlsOf a1 = tlsOf a @ concat bs1"
      "list_all2 arranges bs1 (ownBlocks w (pathJoin w directory name) sub)"
    by auto
  from i1 have w1: "tlsWarnings x (logs r1)
      = tlsWarnings x (logs r) + repeats x (ownBlocks w (pathJoin w directory name) sub)" for x
    by simp
  note i2 = "4.IH"(2) [OF l refl refl refl "4.prems"(1) g1 "4.prems"(3) f]
  from i2 obtain bs2 where bs2: "tlsOf a' = tlsOf a1 @ concat bs2"
      "list_all2 arranges bs2 (subBlocks w directory items)"
    by auto
  from i2 have w2: "tlsWarnings x (logs r') + count_list tm' x
      = tlsWarnings x (logs r1) + count_list tm x + count_list (ownTLS w directory items) x
        + repeats x (subBlocks w directory items)" for x
    by simp
  have "tlsOf a' = tlsOf a @ concat (bs1 @ bs2)"
    using bs1(1) bs2(1) by simp
  moreover have "list_all2 arranges (bs1 @ bs2) (subBlocks w directory (DirInfo name sub # items))"
    using bs1(2) bs2(2) by (simp add: list_all2_appendI)
  moreover have "tlsWarnings x (logs r') + count_list tm' x
      = tlsWarnings x (logs r) + count_list tm x
        + count_list (ownTLS w directory (DirInfo name sub # items)) x
        + repeats x (subBlocks w directory (DirInfo name sub # items))" for x
    using w1 [of x] w2 [of x] by (simp add: repeats_append)
  moreover from i2 have "good a'" "distinct tm'"
    "set tm' = set tm \<union> set (ownTLS w directory (DirInfo name sub # items))"
    by simp_all
  ultimately show ?case
    by blast
next
  case (5 w \<sigma> directory name items r a tm)
  show ?case
  proof (cases "\<not> HasSuffix name ''.toml'' \<and> \<not> HasSuffix name ''.tmpl''")
    case True
    with "5.prems"(4) have
      f: "forItems w \<sigma> directory items r a tm = Return (Fallthrough r' a' tm')"
      by simp
    from "5.IH"(1) [OF True "5.prems"(1-3) f] True show ?thesis
      by simp
  next
    case False
    then have F: "(\<not> HasSuffix name ''.toml'' \<and> \<not> HasSuffix name ''.tmpl'') = False"
      by simp
    from "5.prems"(4) obtain c r1 a1 tm1 where
      l: "loadFileConfig w (pathJoin w directory name) True = Inr c" and
      m: "mergeSnapshot \<sigma> c r a tm = Return (r1, a1, tm1)" and
      f: "forItems w \<sigma> directory items r1 a1 tm1 = Return (Fallthrough r' a' tm')"
      by (auto simp: F split: sum.splits outcome.splits)
    note s = mergeSnapshot_TLS [OF m "5.prems"(3)]
    from s have d1: "distinct tm1"
      by simp
    from mergeSnapshot_good [OF "5.prems"(2), of \<sigma> c r tm] m have g1: "good a1"
      by simp
    from s have t1: "tlsOf a1 = tlsOf a"
      by (cases a; cases a1) (simp_all add: tlsOf_def)
    note i = "5.IH"(2) [OF False l m refl refl "5.prems"(1) g1 d1 f]
    have o: "ownTLS w directory (FileInfo name # items) = slice (TLS c) @ ownTLS w directory items"
      using l by (simp add: F)
    from i obtain bs where bs: "tlsOf a' = tlsOf a @ concat bs"
        "list_all2 arranges bs (subBlocks w directory (FileInfo name # items))"
      by (auto simp: t1)
    have "tlsWarnings x (logs r') + count_list tm' x
        = tlsWarnings x (logs r) + count_list tm x
          + count_list (ownTLS w directory (FileInfo name # items)) x
          + repeats x (subBlocks w directory (FileInfo name # items))" for x
    proof -
      from i have "tlsWarnings x (logs r') + count_list tm' x
          = tlsWarnings x (logs r1) + count_list tm1 x + count_list (ownTLS w directory items) x
            + repeats x (subBlocks w directory items)"
        by simp
      moreover from s have "tlsWarnings x (logs r1) + count_list tm1 x
          = tlsWarnings x (logs r) + count_list tm x + count_list (slice (TLS c)) x"
        by simp
      ultimately show ?thesis
        unfolding o by simp
    qed
    moreover from i s have "good a'" "distinct tm'"
      "set tm' = set tm \<union> set (ownTLS w directory (FileInfo name # items))"
      unfolding o by auto
    ultimately show ?thesis
      using bs by blast
  qed
qed

subsection \<open>TLS entries\<close>

text \<open>
  C3, by evaluation. The entry of address 7 stands in two files of a directory and in a
  file of its subdirectory. The repetition within the directory is logged as a warning,
  not dropped silently. The subdirectory appends the entry when its own visit ends, and
  the directory appends it again when its visit ends, so the collection holds it twice.
\<close>

theorem tls_counterexample:
  "loadFileConfigFromDirectory nestedCerts inOrder ''/d'' (ioReadDir nestedCerts ''/d'') start None
     = Return (\<lparr>logs = [WarnTLS 7], ticks = 11\<rparr>,
               Some \<lparr>Routers = Some [], Middlewares = Some [], Services = Some [], TLS = Some [7, 7]\<rparr>,
               None)"
  by (simp add: nestedCerts_def testWorld_def inOrder_def start_def HasSuffix_def loadFileConfig_def
      readFile_def cert_def mergeSnapshot_def entries_def slice_def collectTLS_def appendSlice_def
      emptyConfiguration_def)

text \<open>
  C3, amended. In a successful aggregation of a directory tree, every visit of a
  directory removes the repetitions, by identity, among the TLS entries of the files of
  that directory itself, and appends each of these entries exactly once when the visit
  ends. So the collection grows by one block for every visited directory, in the order
  in which the visits end (the subdirectories of a directory before the directory), and
  by nothing else; and the warnings for an entry are as many as its repetitions within
  the directories, one for each.
\<close>

theorem tls_once_per_directory:
  assumes "fair \<sigma>" and "a = None \<or> good a"
    and "loadFileConfigFromDirectory w \<sigma> directory l r a = Return (r', a', None)"
  shows "good a'
     \<and> (\<exists>bs. tlsOf a' = tlsOf a @ concat bs \<and> list_all2 arranges bs (ownBlocks w directory l))
     \<and> (\<forall>x. tlsWarnings x (logs r') = tlsWarnings x (logs r) + repeats x (ownBlocks w directory l))"
  using walk_TLS(1) [OF assms] .

theorem tls_once_per_directory_witness:
  "fair inOrder
   \<and> loadFileConfigFromDirectory nestedCerts inOrder ''/d'' (ioReadDir nestedCerts ''/d'') start None
       = Return (\<lparr>logs = [WarnTLS 7], ticks = 11\<rparr>,
                 Some \<lparr>Routers = Some [], Middlewares = Some [], Services = Some [], TLS = Some [7, 7]\<rparr>,
                 None)
   \<and> ownBlocks nestedCerts ''/d'' (ioReadDir nestedCerts ''/d'') = [[7], [7, 7]]
   \<and> list_all2 arranges [[7], [7]] [[7], [7, 7]]
   \<and> tlsWarnings 7 [WarnTLS 7] = repeats 7 [[7], [7, 7]]"
proof -
  have run: "loadFileConfigFromDirectory nestedCerts inOrder ''/d'' (ioReadDir nestedCerts ''/d'') start None
       = Return (\<lparr>logs = [WarnTLS 7], ticks = 11\<rparr>,
                 Some \<lparr>Routers = Some [], Middlewares = Some [], Services = Some [], TLS = Some [7, 7]\<rparr>,
                 None)"
    by (simp add: nestedCerts_def testWorld_def inOrder_def start_def HasSuffix_def loadFileConfig_def
        readFile_def cert_def mergeSnapshot_def entries_def slice_def collectTLS_def appendSlice_def
        emptyConfiguration_def)
  have own: "ownBlocks nestedCerts ''/d'' (ioReadDir nestedCerts ''/d'') = [[7], [7, 7]]"
    by (simp add: nestedCerts_def testWorld_def HasSuffix_def loadFileConfig_def readFile_def cert_def
        slice_def)
  have none: "(None :: configuration option) = None \<or> good None"
    by simp
  from tls_once_per_directory [OF fair_inOrder none run] run own fair_inOrder show ?thesis
    by (simp add: tlsWarnings_def repeats_def arranges_def start_def)
qed

subsection \<open>Two runs of the aggregator\<close>

lemma loadFileConfig_wellformed:
  assumes "decodes w" and "loadFileConfig w filename parseTemplate = Inr c"
  shows "wellformed c"
proof -
  have e: "wellformed emptyConfiguration"
    by (simp add: wellformed_def emptyConfiguration_def entries_def)
  from assms(2) obtain content d where
    d: "(if parseTemplate then CreateConfiguration w content else DecodeConfiguration w content) = (d, None)"
    and c: "c = emptyConfiguration \<or> d = Some c"
    by (auto simp: loadFileConfig_def split: sum.splits prod.splits option.splits if_splits)
  from assms(1) have "case fst (CreateConfiguration w content) of None \<Rightarrow> True | Some c \<Rightarrow> wellformed c"
    and "case fst (DecodeConfiguration w content) of None \<Rightarrow> True | Some c \<Rightarrow> wellformed c"
    by (simp_all add: decodes_def)
  with d c e show ?thesis
    by (auto split: if_splits option.splits)
qed

lemma mergeTLS_same:
  "set tm1 = set tm2 \<Longrightarrow>
     \<exists>new. snd (mergeTLS xs lg1 tm1) = tm1 @ new \<and> snd (mergeTLS xs lg2 tm2) = tm2 @ new"
proof (induction xs arbitrary: lg1 lg2 tm1 tm2)
  case Nil
  then show ?case by simp
next
  case (Cons a xs)
  show ?case
  proof (cases "a \<in> set tm1")
    case True
    with Cons.prems Cons.IH [OF Cons.prems] show ?thesis by simp
  next
    case False
    from Cons.prems have "set (tm1 @ [a]) = set (tm2 @ [a])"
      by simp
    from Cons.IH [OF this, of lg1 lg2] obtain new where
      "snd (mergeTLS xs lg1 (tm1 @ [a])) = tm1 @ a # new"
      "snd (mergeTLS xs lg2 (tm2 @ [a])) = tm2 @ a # new"
      by auto
    with False Cons.prems show ?thesis by simp
  qed
qed

lemma sameMap_entries: "sameMap m n \<Longrightarrow> map_of (entries m) = map_of (entries n)"
  by (cases m; cases n) (simp_all add: sameMap_def entries_def)

lemma sameMap_nil: "sameMap m n \<Longrightarrow> m = None \<longleftrightarrow> n = None"
  by (cases m; cases n) (simp_all add: sameMap_def)

lemma mergeSnapshot_tm:
  assumes "mergeSnapshot \<sigma> c r configuration tm = Return (r', configuration', tm')"
  shows "\<exists>lg. tm' = snd (mergeTLS (slice (TLS c)) lg tm)"
  using assms
  by (auto simp: mergeSnapshot_def Let_def split: outcome.splits prod.splits option.splits if_splits)
    (metis snd_conv)+

lemma good_same: "good a \<Longrightarrow> same a b \<Longrightarrow> good b"
  by (cases a; cases b) (auto simp: good_def same_def dest: sameMap_nil)

lemma mergeSnapshot_same:
  assumes "fair \<sigma>1" and "fair \<sigma>2" and "wellformed c" and "good a" and "same a b"
    and "mset tm1 = mset tm2"
  shows "\<exists>r1' a' t1 r2' b' t2.
           mergeSnapshot \<sigma>1 c r1 a tm1 = Return (r1', a', t1)
         \<and> mergeSnapshot \<sigma>2 c r2 b tm2 = Return (r2', b', t2)
         \<and> good a' \<and> same a' b' \<and> mset t1 = mset t2"
proof -
  from assms(4) obtain x where a: "a = Some x" and gx: "good (Some x)"
    by (cases a) (auto simp: good_def)
  from good_same [OF assms(4,5)] obtain y where b: "b = Some y" and gy: "good (Some y)"
    by (cases b) (auto simp: good_def)
  from mergeSnapshot_fair [OF assms(1,3) gx, of r1 tm1] obtain r1' x' t1 where
    1: "mergeSnapshot \<sigma>1 c r1 (Some x) tm1 = Return (r1', Some x', t1)" "good (Some x')"
      "\<And>f name. lookup (mapping f x') name
         = (if exists (mapping f x) name then lookup (mapping f x) name else lookup (mapping f c) name)"
    by (auto split: if_splits) metis
  from mergeSnapshot_fair [OF assms(2,3) gy, of r2 tm2] obtain r2' y' t2 where
    2: "mergeSnapshot \<sigma>2 c r2 (Some y) tm2 = Return (r2', Some y', t2)" "good (Some y')"
      "\<And>f name. lookup (mapping f y') name
         = (if exists (mapping f y) name then lookup (mapping f y) name else lookup (mapping f c) name)"
    by (auto split: if_splits) metis
  from assms(5) a b have s: "sameMap (mapping f x) (mapping f y)" for f
    by (cases f) (simp_all add: same_def)
  have l: "lookup (mapping f x') name = lookup (mapping f y') name" for f name
    unfolding 1(3) 2(3) using sameMap_entries [OF s [of f]]
    by (simp add: exists_def lookup_def)
  have m: "sameMap (mapping f x') (mapping f y')" for f
  proof -
    from 1(2) 2(2) obtain xs ys where xy: "mapping f x' = Some xs" "mapping f y' = Some ys"
      by (cases f) (auto simp: good_def)
    with l [of f] have "map_of xs = map_of ys"
      by (simp add: lookup_def entries_def fun_eq_iff)
    with xy show ?thesis
      by (simp add: sameMap_def)
  qed
  have tls: "TLS x' = TLS x" "TLS y' = TLS y"
    using mergeSnapshot_TLS [of \<sigma>1 c r1 "Some x" tm1 r1' "Some x'" t1]
      mergeSnapshot_TLS [of \<sigma>2 c r2 "Some y" tm2 r2' "Some y'" t2] 1(1) 2(1)
    by (auto simp: mergeSnapshot_def Let_def split: outcome.splits prod.splits)
  have t: "mset t1 = mset t2"
  proof -
    from assms(6) have st: "set tm1 = set tm2"
      by (metis mset_eq_setD)
    from mergeSnapshot_tm [OF 1(1)] obtain lg1 where t1: "t1 = snd (mergeTLS (slice (TLS c)) lg1 tm1)"
      by blast
    from mergeSnapshot_tm [OF 2(1)] obtain lg2 where t2: "t2 = snd (mergeTLS (slice (TLS c)) lg2 tm2)"
      by blast
    from mergeTLS_same [OF st, of "slice (TLS c)" lg1 lg2] t1 t2 assms(6) show ?thesis
      by auto
  qed
  from assms(5) a b m [of RouterName] m [of MiddlewareName] m [of ServiceName] tls
  have "same (Some x') (Some y')"
    by (simp add: same_def)
  with 1(1,2) 2(1) t a b show ?thesis by blast
qed

lemma mset_appendAll:
  "map_option mset (appendAll s xs)
     = (if xs = [] then map_option mset s else Some (mset (slice s) + mset xs))"
  by (induction xs arbitrary: s) (auto simp: appendSlice_def slice_def split: option.splits)

lemma collectTLS_same:
  assumes "fair \<sigma>1" and "fair \<sigma>2" and "good a" and "same a b" and "mset t1 = mset t2"
  shows "\<exists>r1' a' r2' b'.
           collectTLS \<sigma>1 r1 a t1 = Return (r1', a') \<and> collectTLS \<sigma>2 r2 b t2 = Return (r2', b')
         \<and> same a' b'"
proof -
  from assms(3) obtain x where a: "a = Some x"
    by (cases a) (auto simp: good_def)
  from good_same [OF assms(3,4)] obtain y where b: "b = Some y"
    by (cases b) (auto simp: good_def)
  let ?o1 = "setOrder \<sigma>1 (ticks r1) t1" and ?o2 = "setOrder \<sigma>2 (ticks r2) t2"
  from assms(1,2,5) have o: "mset ?o1 = mset ?o2"
    by (simp add: fair_def)
  then have e: "?o1 = [] \<longleftrightarrow> ?o2 = []"
    by (metis mset_zero_iff)
  from assms(4) a b have "map_option mset (TLS x) = map_option mset (TLS y)"
    by (simp add: same_def)
  then have "mset (slice (TLS x)) = mset (slice (TLS y))"
    by (cases "TLS x"; cases "TLS y") (simp_all add: slice_def)
  with o e \<open>map_option mset (TLS x) = map_option mset (TLS y)\<close>
  have "map_option mset (appendAll (TLS x) ?o1) = map_option mset (appendAll (TLS y) ?o2)"
    by (simp add: mset_appendAll)
  with assms(4) a b show ?thesis
    by (simp add: collectTLS_def Let_def same_def)
qed

lemma same_start:
  assumes "same a b"
  shows "same (case a of None \<Rightarrow> Some emptyConfiguration | Some c \<Rightarrow> Some c)
              (case b of None \<Rightarrow> Some emptyConfiguration | Some c \<Rightarrow> Some c)"
  using assms by (cases a; cases b) (simp_all add: same_def sameMap_def)

lemma walk_same:
  "fair \<sigma>1 \<Longrightarrow> fair \<sigma>2 \<Longrightarrow> decodes w \<Longrightarrow> a = None \<or> good a \<Longrightarrow> same a b \<Longrightarrow>
     \<exists>r1' a' r2' b' e.
        loadFileConfigFromDirectory w \<sigma>1 directory l r1 a = Return (r1', a', e)
      \<and> loadFileConfigFromDirectory w \<sigma>2 directory l r2 b = Return (r2', b', e)
      \<and> same a' b'"
  "fair \<sigma>1 \<Longrightarrow> fair \<sigma>2 \<Longrightarrow> decodes w \<Longrightarrow> good a \<Longrightarrow> same a b \<Longrightarrow> mset tm1 = mset tm2 \<Longrightarrow>
     (\<exists>r1' a' t1 r2' b' t2.
        forItems w \<sigma>1 directory items r1 a tm1 = Return (Fallthrough r1' a' t1)
      \<and> forItems w \<sigma>2 directory items r2 b tm2 = Return (Fallthrough r2' b' t2)
      \<and> good a' \<and> same a' b' \<and> mset t1 = mset t2)
   \<or> (\<exists>r1' a' r2' b' err.
        forItems w \<sigma>1 directory items r1 a tm1 = Return (Returned r1' a' err)
      \<and> forItems w \<sigma>2 directory items r2 b tm2 = Return (Returned r2' b' err)
      \<and> same a' b')"
proof (induction w \<sigma>1 directory l r1 a and w \<sigma>1 directory items r1 a tm1
    arbitrary: r2 b and r2 b tm2
    rule: loadFileConfigFromDirectory_forItems.induct)
  case (1 w \<sigma>1 directory err r1 a)
  then show ?case by simp
next
  case (2 w \<sigma>1 directory fileList r1 a)
  let ?a = "case a of None \<Rightarrow> Some emptyConfiguration | Some c \<Rightarrow> Some c"
  let ?b = "case b of None \<Rightarrow> Some emptyConfiguration | Some c \<Rightarrow> Some c"
  from "2.prems"(4) have g: "good ?a"
    by (auto simp: good_emptyConfiguration split: option.splits)
  note s = same_start [OF "2.prems"(5)]
  have mm: "mset ([]::ref list) = mset []"
    by simp
  from "2.IH" [OF "2.prems"(1-3) g s mm, of r2]
  show ?case
  proof
    assume "\<exists>r1' a' t1 r2' b' t2.
        forItems w \<sigma>1 directory fileList r1 ?a [] = Return (Fallthrough r1' a' t1)
      \<and> forItems w \<sigma>2 directory fileList r2 ?b [] = Return (Fallthrough r2' b' t2)
      \<and> good a' \<and> same a' b' \<and> mset t1 = mset t2"
    then obtain r1' a' t1 r2' b' t2 where
      f: "forItems w \<sigma>1 directory fileList r1 ?a [] = Return (Fallthrough r1' a' t1)"
         "forItems w \<sigma>2 directory fileList r2 ?b [] = Return (Fallthrough r2' b' t2)"
      and i: "good a'" "same a' b'" "mset t1 = mset t2"
      by blast
    from collectTLS_same [OF "2.prems"(1,2) i, of r1' r2'] f show ?thesis
      by auto
  next
    assume "\<exists>r1' a' r2' b' err.
        forItems w \<sigma>1 directory fileList r1 ?a [] = Return (Returned r1' a' err)
      \<and> forItems w \<sigma>2 directory fileList r2 ?b [] = Return (Returned r2' b' err)
      \<and> same a' b'"
    then show ?thesis by auto
  qed
next
  case (3 w \<sigma>1 directory r1 a tm1)
  then show ?case by simp
next
  case (4 w \<sigma>1 directory name sub items r1 a tm1)
  from "4.prems"(4) have ga: "a = None \<or> good a"
    by simp
  from "4.IH"(1) [OF "4.prems"(1-3) ga "4.prems"(5), of r2] obtain r1' a' r2' b' e where
    l: "loadFileConfigFromDirectory w \<sigma>1 (pathJoin w directory name) sub r1 a = Return (r1', a', e)"
       "loadFileConfigFromDirectory w \<sigma>2 (pathJoin w directory name) sub r2 b = Return (r2', b', e)"
    and s: "same a' b'"
    by blast
  show ?case
  proof (cases e)
    case None
    from walk_good(1) [of a w \<sigma>1 "pathJoin w directory name" sub r1] l(1) "4.prems"(4)
    have g': "good a'"
      by auto
    from "4.IH"(2) [OF l(1) [unfolded None] refl refl refl "4.prems"(1-3) g' s "4.prems"(6), of r2'] l None
    show ?thesis by simp
  next
    case (Some err)
    with l s show ?thesis by simp
  qed
next
  case (5 w \<sigma>1 directory name items r1 a tm1)
  show ?case
  proof (cases "\<not> HasSuffix name ''.toml'' \<and> \<not> HasSuffix name ''.tmpl''")
    case True
    from "5.IH"(1) [OF True "5.prems", of r2] True show ?thesis by simp
  next
    case False
    then have F: "(\<not> HasSuffix name ''.toml'' \<and> \<not> HasSuffix name ''.tmpl'') = False"
      by simp
    show ?thesis
    proof (cases "loadFileConfig w (pathJoin w directory name) True")
      case (Inl err)
      with "5.prems"(5) show ?thesis by (simp add: F)
    next
      case (Inr c)
      note wf = loadFileConfig_wellformed [OF "5.prems"(3) Inr]
      from mergeSnapshot_same [OF "5.prems"(1,2) wf "5.prems"(4,5,6), of r1 r2]
      obtain r1' a' t1 r2' b' t2 where
        m: "mergeSnapshot \<sigma>1 c r1 a tm1 = Return (r1', a', t1)"
           "mergeSnapshot \<sigma>2 c r2 b tm2 = Return (r2', b', t2)"
        and i: "good a'" "same a' b'" "mset t1 = mset t2"
        by blast
      from "5.IH"(2) [OF False Inr m(1) refl refl "5.prems"(1-3) i, of r2'] Inr m
      show ?thesis by (simp add: F)
    qed
  qed
qed

subsection \<open>Running the aggregator twice\<close>

text \<open>
  C8, by evaluation. One file holds two TLS entries. Two runs over the same directory,
  which differ only in the order their range loops take, return the TLS entries in two
  different orders.
\<close>

theorem tls_order_counterexample:
  "loadFileConfigFromDirectory twoCerts inOrder ''/d'' (ioReadDir twoCerts ''/d'') start None
     = Return (\<lparr>logs = [], ticks = 4\<rparr>,
               Some \<lparr>Routers = Some [(''r1'', 1)], Middlewares = Some [], Services = Some [],
                      TLS = Some [7, 8]\<rparr>, None)
   \<and> loadFileConfigFromDirectory twoCerts reversed ''/d'' (ioReadDir twoCerts ''/d'') start None
     = Return (\<lparr>logs = [], ticks = 4\<rparr>,
               Some \<lparr>Routers = Some [(''r1'', 1)], Middlewares = Some [], Services = Some [],
                      TLS = Some [8, 7]\<rparr>, None)"
  by (simp add: twoCerts_def testWorld_def inOrder_def reversed_def start_def HasSuffix_def
      loadFileConfig_def readFile_def mergeSnapshot_def entries_def exists_def assign_def slice_def
      collectTLS_def appendSlice_def emptyConfiguration_def)

text \<open>
  C8, amended. Two runs of the aggregator over the same directory tree, in any two orders
  of their range loops, both return, with the same error or both with none, and with
  snapshots that have the same routers, middlewares and services and the same TLS
  entries. When they succeed, the two TLS collections are made of the same blocks in the
  same order, one block for every visited directory in the order in which the visits
  end; a block holds the TLS entries of the files of that directory itself, each once,
  and only the order within a block may differ between the runs.
\<close>

theorem aggregation_repeatable:
  assumes "fair \<sigma>1" and "fair \<sigma>2" and "decodes w"
  shows "\<exists>r1' c1 r2' c2 e.
           loadFileConfigFromDirectory w \<sigma>1 directory l r1 None = Return (r1', c1, e)
         \<and> loadFileConfigFromDirectory w \<sigma>2 directory l r2 None = Return (r2', c2, e)
         \<and> same c1 c2
         \<and> (e = None \<longrightarrow>
              (\<exists>bs1 bs2. tlsOf c1 = concat bs1 \<and> tlsOf c2 = concat bs2
                 \<and> list_all2 arranges bs1 (ownBlocks w directory l)
                 \<and> list_all2 arranges bs2 (ownBlocks w directory l)))"
proof -
  have "same None None"
    by (simp add: same_def)
  with walk_same(1) [OF assms, of None None directory l r1 r2] obtain r1' c1 r2' c2 e where
    1: "loadFileConfigFromDirectory w \<sigma>1 directory l r1 None = Return (r1', c1, e)" and
    2: "loadFileConfigFromDirectory w \<sigma>2 directory l r2 None = Return (r2', c2, e)" and
    s: "same c1 c2"
    by auto
  have n: "(None :: configuration option) = None \<or> good None"
    by simp
  have "\<exists>bs1 bs2. tlsOf c1 = concat bs1 \<and> tlsOf c2 = concat bs2
      \<and> list_all2 arranges bs1 (ownBlocks w directory l)
      \<and> list_all2 arranges bs2 (ownBlocks w directory l)" if "e = None"
    using walk_TLS(1) [OF assms(1) n 1 [unfolded that]] walk_TLS(1) [OF assms(2) n 2 [unfolded that]]
    by (auto simp: tlsOf_def)
  with 1 2 s show ?thesis
    by blast
qed

theorem aggregation_repeatable_witness:
  "fair inOrder \<and> fair reversed \<and> decodes crossCerts
   \<and> loadFileConfigFromDirectory crossCerts inOrder ''/d'' (ioReadDir crossCerts ''/d'') start None
     = Return (\<lparr>logs = [], ticks = 8\<rparr>,
               Some \<lparr>Routers = Some [(''r1'', 1)], Middlewares = Some [], Services = Some [],
                      TLS = Some [9, 7, 8]\<rparr>, None)
   \<and> loadFileConfigFromDirectory crossCerts reversed ''/d'' (ioReadDir crossCerts ''/d'') start None
     = Return (\<lparr>logs = [], ticks = 8\<rparr>,
               Some \<lparr>Routers = Some [(''r1'', 1)], Middlewares = Some [], Services = Some [],
                      TLS = Some [9, 8, 7]\<rparr>, None)
   \<and> ownBlocks crossCerts ''/d'' (ioReadDir crossCerts ''/d'') = [[9], [7, 8]]
   \<and> list_all2 arranges [[9], [7, 8]] [[9], [7, 8]]
   \<and> list_all2 arranges [[9], [8, 7]] [[9], [7, 8]]"
proof -
  have d: "decodes crossCerts"
    by (auto simp: decodes_def crossCerts_def testWorld_def wellformed_def entries_def)
  have 1: "loadFileConfigFromDirectory crossCerts inOrder ''/d'' (ioReadDir crossCerts ''/d'') start None
     = Return (\<lparr>logs = [], ticks = 8\<rparr>,
               Some \<lparr>Routers = Some [(''r1'', 1)], Middlewares = Some [], Services = Some [],
                      TLS = Some [9, 7, 8]\<rparr>, None)"
    by (simp add: crossCerts_def testWorld_def inOrder_def start_def HasSuffix_def
        loadFileConfig_def readFile_def mergeSnapshot_def entries_def exists_def assign_def slice_def
        collectTLS_def appendSlice_def emptyConfiguration_def)
  have 2: "loadFileConfigFromDirectory crossCerts reversed ''/d'' (ioReadDir crossCerts ''/d'') start None
     = Return (\<lparr>logs = [], ticks = 8\<rparr>,
               Some \<lparr>Routers = Some [(''r1'', 1)], Middlewares = Some [], Services = Some [],
                      TLS = Some [9, 8, 7]\<rparr>, None)"
    by (simp add: crossCerts_def testWorld_def reversed_def start_def HasSuffix_def
        loadFileConfig_def readFile_def mergeSnapshot_def entries_def exists_def assign_def slice_def
        collectTLS_def appendSlice_def emptyConfiguration_def)
  have own: "ownBlocks crossCerts ''/d'' (ioReadDir crossCerts ''/d'') = [[9], [7, 8]]"
    by (simp add: crossCerts_def testWorld_def HasSuffix_def loadFileConfig_def readFile_def
        slice_def)
  have a: "arranges [9] [9]" "arranges [7, 8] [7, 8]" "arranges [8, 7] [7, 8]"
    by (auto simp: arranges_def)
  from aggregation_repeatable [OF fair_inOrder fair_reversed d,
      of "''/d''" "ioReadDir crossCerts ''/d''" start start]
  show ?thesis
    by (simp add: 1 2 d own a fair_inOrder fair_reversed)
qed

subsection \<open>The way through the directory tree\<close>

lemma mergeSnapshot_held:
  assumes "fair \<sigma>" and "wellformed c" and "good a"
    and "mergeSnapshot \<sigma> c r a tm = Return (r', a', tm')"
  shows "good a' \<and> (\<forall>f name. held f name a'
           = (case held f name a of Some v \<Rightarrow> Some v | None \<Rightarrow> lookup (mapping f c) name))"
proof -
  from assms(3) obtain acc where a: "a = Some acc" and g: "good (Some acc)"
    by (cases a) (simp_all add: good_def)
  from mergeSnapshot_fair [OF assms(1,2) g, of r tm] assms(4) a obtain acc' where
    a': "a' = Some acc'" "good (Some acc')" and
    l: "\<And>f name. (exists (mapping f acc) name \<longrightarrow>
             lookup (mapping f acc') name = lookup (mapping f acc) name)
        \<and> (\<not> exists (mapping f acc) name \<longrightarrow>
             lookup (mapping f acc') name = lookup (mapping f c) name)"
    by auto
  have "held f name a'
      = (case held f name a of Some v \<Rightarrow> Some v | None \<Rightarrow> lookup (mapping f c) name)" for f name
    using l [of f name]
    by (cases "lookup (mapping f acc) name") (simp_all add: a a' held_def exists_def lookup_def)
  with a' show ?thesis
    by simp
qed

lemma collectTLS_held:
  assumes "collectTLS \<sigma> r a tm = Return (r', a')"
  shows "held f name a' = held f name a"
  using assms
  by (cases f) (auto simp: collectTLS_def Let_def held_def split: option.splits if_splits)

lemma held_start:
  "held f name (case a of None \<Rightarrow> Some emptyConfiguration | Some c \<Rightarrow> Some c) = held f name a"
  by (cases a; cases f) (simp_all add: held_def emptyConfiguration_def lookup_def entries_def)

lemma walk_first:
  "fair \<sigma> \<Longrightarrow> decodes w \<Longrightarrow> a = None \<or> good a \<Longrightarrow>
   loadFileConfigFromDirectory w \<sigma> directory l r a = Return (r', a', None) \<Longrightarrow>
     good a'
     \<and> (\<forall>f name. held f name a'
           = (case held f name a of Some v \<Rightarrow> Some v | None \<Rightarrow> firstListing w f name directory l))"
  "fair \<sigma> \<Longrightarrow> decodes w \<Longrightarrow> good a \<Longrightarrow>
   forItems w \<sigma> directory items r a tm = Return (Fallthrough r' a' tm') \<Longrightarrow>
     good a'
     \<and> (\<forall>f name. held f name a'
           = (case held f name a of Some v \<Rightarrow> Some v | None \<Rightarrow> firstItems w f name directory items))"
proof (induction w \<sigma> directory l r a and w \<sigma> directory items r a tm
    arbitrary: r' a' and r' a' tm'
    rule: loadFileConfigFromDirectory_forItems.induct)
  case (1 w \<sigma> directory err r a)
  then show ?case by simp
next
  case (2 w \<sigma> directory fileList r a)
  let ?a = "case a of None \<Rightarrow> Some emptyConfiguration | Some c \<Rightarrow> Some c"
  from "2.prems"(4) obtain r1 a1 tm1 where
    f: "forItems w \<sigma> directory fileList r ?a [] = Return (Fallthrough r1 a1 tm1)" and
    c: "collectTLS \<sigma> r1 a1 tm1 = Return (r', a')"
    by (auto split: outcome.splits loop.splits)
  note i = "2.IH" [OF "2.prems"(1,2) good_start [OF "2.prems"(3)] f]
  from i collectTLS_good [of a1 \<sigma> r1 tm1] c have "good a'"
    by auto
  moreover from i have "held f name a'
      = (case held f name a of Some v \<Rightarrow> Some v
         | None \<Rightarrow> firstListing w f name directory (FileList fileList))" for f name
    by (simp add: collectTLS_held [OF c] held_start split: option.splits)
  ultimately show ?case
    by blast
next
  case (3 w \<sigma> directory r a tm)
  then show ?case by (auto split: option.splits)
next
  case (4 w \<sigma> directory n sub items r a tm)
  from "4.prems"(4) obtain r1 a1 where
    l: "loadFileConfigFromDirectory w \<sigma> (pathJoin w directory n) sub r a = Return (r1, a1, None)" and
    f: "forItems w \<sigma> directory items r1 a1 tm = Return (Fallthrough r' a' tm')"
    by (auto split: outcome.splits option.splits)
  from "4.prems"(3) have ga: "a = None \<or> good a"
    by simp
  note i1 = "4.IH"(1) [OF "4.prems"(1,2) ga l]
  from i1 have g1: "good a1"
    by simp
  note i2 = "4.IH"(2) [OF l refl refl refl "4.prems"(1,2) g1 f]
  have "held f name a'
      = (case held f name a of Some v \<Rightarrow> Some v
         | None \<Rightarrow> firstItems w f name directory (DirInfo n sub # items))" for f name
    using i1 i2 by (simp split: option.splits)
  with i2 show ?case
    by blast
next
  case (5 w \<sigma> directory n items r a tm)
  show ?case
  proof (cases "\<not> HasSuffix n ''.toml'' \<and> \<not> HasSuffix n ''.tmpl''")
    case True
    with "5.prems"(4) have
      f: "forItems w \<sigma> directory items r a tm = Return (Fallthrough r' a' tm')"
      by simp
    from "5.IH"(1) [OF True "5.prems"(1-3) f] True show ?thesis
      by (simp add: payload_def split: option.splits)
  next
    case False
    then have F: "(\<not> HasSuffix n ''.toml'' \<and> \<not> HasSuffix n ''.tmpl'') = False"
      by simp
    from "5.prems"(4) obtain c r1 a1 tm1 where
      l: "loadFileConfig w (pathJoin w directory n) True = Inr c" and
      m: "mergeSnapshot \<sigma> c r a tm = Return (r1, a1, tm1)" and
      f: "forItems w \<sigma> directory items r1 a1 tm1 = Return (Fallthrough r' a' tm')"
      by (auto simp: F split: sum.splits outcome.splits)
    note wf = loadFileConfig_wellformed [OF "5.prems"(2) l]
    note h = mergeSnapshot_held [OF "5.prems"(1) wf "5.prems"(3) m]
    from h have g1: "good a1"
      by simp
    note i = "5.IH"(2) [OF False l m refl refl "5.prems"(1,2) g1 f]
    have p: "payload w directory f name n = lookup (mapping f c) name" for f name
      by (simp add: payload_def F l)
    have "held f name a'
        = (case held f name a of Some v \<Rightarrow> Some v
           | None \<Rightarrow> firstItems w f name directory (FileInfo n # items))" for f name
      using i h by (simp add: p split: option.splits)
    with i show ?thesis
      by blast
  qed
qed

subsection \<open>The order of the listing\<close>

text \<open>
  C9. The aggregator takes the entries of every directory in the order of its listing,
  whatever that order is, and does not sort them: after a successful aggregation a name
  holds what the accumulator held for it before, and else its first definition on the
  way through the tree that follows the listings, a subdirectory wholly at the place
  of its entry. So the winner need not be first by name: in the environment
  \<open>shadowed\<close>, whose directory is listed as \<^verbatim>\<open>ioutil.ReadDir\<close> lists it, the file
  \<open>z.toml\<close> of the subdirectory \<open>a\<close> wins over the file \<open>a.toml\<close>, which is less both
  as a file name and as a path.
\<close>

theorem listing_order_decides:
  assumes "fair \<sigma>" and "decodes w" and "a = None \<or> good a"
    and "loadFileConfigFromDirectory w \<sigma> directory l r a = Return (r', a', None)"
  shows "good a'
     \<and> (\<forall>f name. held f name a'
           = (case held f name a of Some v \<Rightarrow> Some v | None \<Rightarrow> firstListing w f name directory l))"
  using walk_first(1) [OF assms] .

theorem listing_order_decides_witness:
  "fair reversed \<and> decodes shadowed
   \<and> ioReadDir shadowed ''/d''
       = FileList [DirInfo ''a'' (FileList [FileInfo ''z.toml'']), FileInfo ''a.toml'']
   \<and> sortedByName [DirInfo ''a'' (FileList [FileInfo ''z.toml'']), FileInfo ''a.toml'']
   \<and> sortedByName [FileInfo ''z.toml'']
   \<and> loadFileConfigFromDirectory shadowed reversed ''/d'' (ioReadDir shadowed ''/d'') start None
       = Return (\<lparr>logs = [WarnField RouterName ''r1'' ''Router already configured, skipping''],
                  ticks = 8\<rparr>,
                 Some \<lparr>Routers = Some [(''r1'', 1), (''r2'', 3)], Middlewares = Some [],
                        Services = Some [], TLS = None\<rparr>, None)
   \<and> payload shadowed ''/d/a'' RouterName ''r1'' ''z.toml'' = Some 1
   \<and> payload shadowed ''/d'' RouterName ''r1'' ''a.toml'' = Some 2
   \<and> firstListing shadowed RouterName ''r1'' ''/d'' (ioReadDir shadowed ''/d'') = Some 1
   \<and> firstListing shadowed RouterName ''r2'' ''/d'' (ioReadDir shadowed ''/d'') = Some 3
   \<and> ''a.toml'' < ''z.toml'' \<and> ''/d/a.toml'' < ''/d/a/z.toml''"
proof -
  have d: "decodes shadowed"
    by (auto simp: decodes_def shadowed_def testWorld_def wellformed_def entries_def base_def
        override_def)
  have l: "ioReadDir shadowed ''/d''
       = FileList [DirInfo ''a'' (FileList [FileInfo ''z.toml'']), FileInfo ''a.toml'']"
    by (simp add: shadowed_def testWorld_def)
  have s: "sortedByName [DirInfo ''a'' (FileList [FileInfo ''z.toml'']), FileInfo ''a.toml'']"
    "sortedByName [FileInfo ''z.toml'']" "''a.toml'' < ''z.toml''" "''/d/a.toml'' < ''/d/a/z.toml''"
    by (simp_all add: sortedByName_def)
  have run: "loadFileConfigFromDirectory shadowed reversed ''/d'' (ioReadDir shadowed ''/d'') start None
       = Return (\<lparr>logs = [WarnField RouterName ''r1'' ''Router already configured, skipping''],
                  ticks = 8\<rparr>,
                 Some \<lparr>Routers = Some [(''r1'', 1), (''r2'', 3)], Middlewares = Some [],
                        Services = Some [], TLS = None\<rparr>, None)"
    by (simp add: shadowed_def testWorld_def reversed_def start_def HasSuffix_def
        loadFileConfig_def readFile_def mergeSnapshot_def entries_def exists_def assign_def slice_def
        collectTLS_def emptyConfiguration_def base_def override_def skipping_def)
  have p: "payload shadowed ''/d/a'' RouterName ''r1'' ''z.toml'' = Some 1"
    "payload shadowed ''/d'' RouterName ''r1'' ''a.toml'' = Some 2"
    by (simp_all add: payload_def shadowed_def testWorld_def HasSuffix_def loadFileConfig_def
        readFile_def base_def override_def lookup_def entries_def)
  have none: "(None :: configuration option) = None \<or> good None"
    by simp
  note h = listing_order_decides [OF fair_reversed d none run, THEN conjunct2, rule_format]
  from h [of RouterName "''r1''"] h [of RouterName "''r2''"]
  have f: "firstListing shadowed RouterName ''r1'' ''/d'' (ioReadDir shadowed ''/d'') = Some 1"
    "firstListing shadowed RouterName ''r2'' ''/d'' (ioReadDir shadowed ''/d'') = Some 3"
    by (simp_all add: held_def lookup_def entries_def)
  from d l s run p f fair_reversed show ?thesis
    by simp
qed

end
